theory Spec2Isabelle
  imports
    Main
    "HOL-Library.Char_ord"
    "HOL-Library.List_Lexorder"
    "HOL-Library.Sublist"
    "HOL-Library.Multiset"
    "HOL-Library.Word"
begin

section \<open>Go values used by the upload and object code\<close>

text \<open>
  Go strings are byte sequences, compared byte-wise: they are modelled as \<open>string\<close>
  with the lexicographic order on the character codes. Object content is a byte slice.
  Go's \<open>int\<close> is taken as the 64-bit signed integer of the usual targets: values are
  kept as \<open>int\<close> inside the range and additions wrap around explicitly.
\<close>

type_synonym byte = "8 word"

definition int_min :: int where
  "int_min = - (2 ^ 63)"

definition int_max :: int where
  "int_max = 2 ^ 63 - 1"

definition wrap_int :: "int \<Rightarrow> int" where
  "wrap_int v = (v + 2 ^ 63) mod 2 ^ 64 - 2 ^ 63"

subsection \<open>Package strings\<close>

definition HasPrefix :: "string \<Rightarrow> string \<Rightarrow> bool" where
  "HasPrefix s pre = (length pre \<le> length s \<and> take (length pre) s = pre)"

fun Index :: "string \<Rightarrow> string \<Rightarrow> nat option" where
  "Index [] sep = (if sep = [] then Some 0 else None)"
| "Index (c # t) sep =
     (if HasPrefix (c # t) sep then Some 0 else map_option Suc (Index t sep))"

definition Contains :: "string \<Rightarrow> string \<Rightarrow> bool" where
  "Contains s substr = (Index s substr \<noteq> None)"

text \<open>
  \<open>strings.SplitN(s, sep, 2)\<close> for a non-empty separator, the only way the source
  calls it: the whole string when the separator does not occur, otherwise what lies
  before and after its first occurrence.
\<close>

definition SplitN2 :: "string \<Rightarrow> string \<Rightarrow> string list" where
  "SplitN2 s sep =
     (case Index s sep of
        None \<Rightarrow> [s]
      | Some m \<Rightarrow> [take m s, drop (m + length sep) s])"

text \<open>
  \<open>strings.Replace(s, old, "", 1)\<close>: the first occurrence of \<open>old\<close> is removed; an
  empty \<open>old\<close> equals the replacement and the string is returned as it is.
\<close>

definition Replace1 :: "string \<Rightarrow> string \<Rightarrow> string" where
  "Replace1 s old =
     (if old = [] then s
      else case Index s old of
        None \<Rightarrow> s
      | Some m \<Rightarrow> take m s @ drop (m + length old) s)"

subsection \<open>Package strconv and decimal formatting\<close>

definition digit_of :: "char \<Rightarrow> nat option" where
  "digit_of ch =
     (let n = (of_char ch :: nat) in if 48 \<le> n \<and> n \<le> 57 then Some (n - 48) else None)"

fun digits_value :: "nat \<Rightarrow> string \<Rightarrow> nat option" where
  "digits_value n [] = Some n"
| "digits_value n (ch # cs) =
     (case digit_of ch of
        None \<Rightarrow> None
      | Some d \<Rightarrow> digits_value (n * 10 + d) cs)"

text \<open>
  \<open>strconv.Atoi\<close>: an optional sign, then at least one decimal digit and nothing else;
  a value outside the range of \<open>int\<close> is an error. The source only tests the error
  against \<open>nil\<close>, so the error is \<open>None\<close>.
\<close>

definition Atoi :: "string \<Rightarrow> int option" where
  "Atoi s =
     (case s of
        [] \<Rightarrow> None
      | c # cs \<Rightarrow>
          let neg = (c = CHR ''-'');
              ds = (if c = CHR ''-'' \<or> c = CHR ''+'' then cs else s)
          in if ds = [] then None
             else case digits_value 0 ds of
               None \<Rightarrow> None
             | Some n \<Rightarrow>
                 let v = (if neg then - int n else int n)
                 in if int_min \<le> v \<and> v \<le> int_max then Some v else None)"

text \<open>\<open>fmt.Sprintf("%d", n)\<close>: the decimal digits, after a minus sign when negative.\<close>

definition digit_chars :: string where
  "digit_chars = ''0123456789abcdef''"

function nat_dec :: "nat \<Rightarrow> string" where
  "nat_dec n =
     (if n < 10 then [digit_chars ! n]
      else nat_dec (n div 10) @ [digit_chars ! (n mod 10)])"
  by pat_completeness auto
termination
  by (relation "measure id") auto

declare nat_dec.simps [simp del]

definition Sprintf_d :: "int \<Rightarrow> string" where
  "Sprintf_d n = (if n < 0 then CHR ''-'' # nat_dec (nat (- n)) else nat_dec (nat n))"

text \<open>\<open>fmt.Sprintf("%x", raw)\<close> on a byte slice: two lower-case hex digits per byte.\<close>

definition Sprintf_x :: "byte list \<Rightarrow> string" where
  "Sprintf_x raw =
     concat (map (\<lambda>b. [digit_chars ! (unat b div 16), digit_chars ! (unat b mod 16)]) raw)"

section \<open>Content-Range\<close>

text \<open>
  The struct \<open>contentRange\<close> and the parser \<open>parseContentRange\<close> of the upload source
  (lines 41 to 47 and 417 to 468). The parser returns the value together with an error;
  its callers use the value only when the error is nil, so the result is the error
  message or the value.
\<close>

record contentRange =
  KnownRange :: bool
  KnownTotal :: bool
  Start :: int
  End :: int
  Total :: int

definition zero_contentRange :: contentRange where
  "zero_contentRange =
     \<lparr>KnownRange = False, KnownTotal = False, Start = 0, End = 0, Total = 0\<rparr>"

definition bytesPrefix :: string where
  "bytesPrefix = ''bytes ''"

definition invalidErr :: "string \<Rightarrow> string" where
  "invalidErr r = ''invalid Content-Range: '' @ r"

text \<open>
  The two halves of \<open>parseContentRange\<close>: the range before the slash (lines 432 to
  450) ...
\<close>

definition processRange :: "string \<Rightarrow> string \<Rightarrow> contentRange \<Rightarrow> string + contentRange" where
  "processRange r part0 parsed =
     (if part0 = ''*'' then Inr (parsed\<lparr>Start := - 1, End := - 1\<rparr>)
      else
        let rangeParts = SplitN2 part0 ''-'' in
        if length rangeParts \<noteq> 2 then Inl (invalidErr r)
        else
          case Atoi (rangeParts ! 0) of
            None \<Rightarrow> Inl (invalidErr r)
          | Some st \<Rightarrow>
              (case Atoi (rangeParts ! 1) of
                 None \<Rightarrow> Inl (invalidErr r)
               | Some en \<Rightarrow> Inr (parsed\<lparr>KnownRange := True, Start := st, End := en\<rparr>)))"

text \<open>... and the total length after it (lines 452 to 465).\<close>

definition processTotal :: "string \<Rightarrow> string \<Rightarrow> contentRange \<Rightarrow> string + contentRange" where
  "processTotal r part1 parsed =
     (if part1 = ''*'' then
        (if \<not> KnownRange parsed then Inl (invalidErr r)
         else Inr (parsed\<lparr>Total := - 1\<rparr>))
      else
        case Atoi part1 of
          None \<Rightarrow> Inl (invalidErr r)
        | Some t \<Rightarrow> Inr (parsed\<lparr>KnownTotal := True, Total := t\<rparr>))"

definition parseContentRange :: "string \<Rightarrow> string + contentRange" where
  "parseContentRange r =
     (if \<not> HasPrefix r bytesPrefix then Inl (invalidErr r)
      else
        let parts = SplitN2 (drop (length bytesPrefix) r) ''/'' in
        if length parts \<noteq> 2 then Inl (invalidErr r)
        else
          case processRange r (parts ! 0) zero_contentRange of
            Inl e \<Rightarrow> Inl e
          | Inr parsed \<Rightarrow> processTotal r (parts ! 1) parsed)"


section \<open>The object store (object.go)\<close>

text \<open>
  \<open>Object\<close> is the stored object. The store code of \<open>object.go\<close> uses the bucket
  name, the name and the content; the upload code fills the other fields as well.
\<close>

record ACLRule =
  Entity :: string
  Role :: string

record Object =
  BucketName :: string
  Name :: string
  Content :: "byte list"
  ContentType :: string
  ContentEncoding :: string
  Crc32c :: string
  Md5Hash :: string
  ACL :: "ACLRule list"
  Metadata :: "string \<rightharpoonup> string"

text \<open>The method \<open>id\<close> of an object (\<open>object.go\<close>, line 24).\<close>

definition id_Object :: "Object \<Rightarrow> string" where
  "id_Object obj = BucketName obj @ ''/'' @ Name obj"

text \<open>
  The server: the bucket map guarded by \<open>mtx\<close>, the table of resumable uploads
  (a \<open>sync.Map\<close> from upload id to the partial object) and the server's own URL.
  Each operation runs under the lock, so it is one step on this state.
\<close>

record Server =
  buckets :: "string \<rightharpoonup> Object list"
  uploads :: "string \<rightharpoonup> Object"
  URL :: string

text \<open>
  Indexing the bucket map with a missing key yields the nil slice. \<open>findObject\<close>
  (\<open>object.go\<close>, lines 85 to 92) returns the first index whose object has the id looked
  for, or \<open>-1\<close>; \<open>CreateObject\<close> (lines 32 to 41) overwrites at that index or appends.
\<close>

definition bucket_objects :: "Server \<Rightarrow> string \<Rightarrow> Object list" where
  "bucket_objects s bucketName = (case buckets s bucketName of None \<Rightarrow> [] | Some objs \<Rightarrow> objs)"

fun findObject_from :: "nat \<Rightarrow> Object list \<Rightarrow> Object \<Rightarrow> int" where
  "findObject_from i [] obj = - 1"
| "findObject_from i (ob # objs) obj =
     (if id_Object obj = id_Object ob then int i else findObject_from (Suc i) objs obj)"

definition findObject :: "Server \<Rightarrow> Object \<Rightarrow> int" where
  "findObject s obj = findObject_from 0 (bucket_objects s (BucketName obj)) obj"

definition CreateObject :: "Server \<Rightarrow> Object \<Rightarrow> Server" where
  "CreateObject s obj =
     (let index = findObject s obj in
      if index < 0 then
        s\<lparr>buckets := (buckets s)(BucketName obj \<mapsto> bucket_objects s (BucketName obj) @ [obj])\<rparr>
      else
        s\<lparr>buckets := (buckets s)(BucketName obj \<mapsto>
             (bucket_objects s (BucketName obj))[nat index := obj])\<rparr>)"

text \<open>
  The loop of \<open>ListObjects\<close> (\<open>object.go\<close>, lines 45 to 65) over the sorted objects,
  \<open>respObjects\<close> being the accumulator.
\<close>

fun ListObjects_loop :: "Object list \<Rightarrow> string \<Rightarrow> string \<Rightarrow> Object list \<Rightarrow> Object list" where
  "ListObjects_loop [] pre delimiter respObjects = respObjects"
| "ListObjects_loop (obj # objs) pre delimiter respObjects =
     ListObjects_loop objs pre delimiter
       (if HasPrefix (Name obj) pre then
          (let objName = Replace1 (Name obj) pre in
           if delimiter = [] \<or> \<not> Contains objName delimiter then respObjects @ [obj]
           else respObjects)
        else respObjects)"

text \<open>
  \<open>sort.Slice\<close> sorts the bucket's slice in place by name, so the stored order changes
  too. It is not a stable sort: among objects of equal name Go fixes no order, and the
  model takes the order of the stable insertion sort.
\<close>

definition ListObjects :: "Server \<Rightarrow> string \<Rightarrow> string \<Rightarrow> string \<Rightarrow> (string + Object list) \<times> Server" where
  "ListObjects s bucketName pre delimiter =
     (case buckets s bucketName of
        None \<Rightarrow> (Inl ''bucket not found'', s)
      | Some objs \<Rightarrow>
          let objects = sort_key Name objs in
          (Inr (ListObjects_loop objects pre delimiter []),
           s\<lparr>buckets := (buckets s)(bucketName \<mapsto> objects)\<rparr>))"

text \<open>
  \<open>GetObject\<close> (\<open>object.go\<close>, lines 69 to 78) looks for an object that has the two
  names and zero values in its other fields.
\<close>

definition zero_Object :: Object where
  "zero_Object =
     \<lparr>BucketName = [], Name = [], Content = [], ContentType = [], ContentEncoding = [],
      Crc32c = [], Md5Hash = [], ACL = [], Metadata = Map.empty\<rparr>"

definition GetObject :: "Server \<Rightarrow> string \<Rightarrow> string \<Rightarrow> string + Object" where
  "GetObject s bucketName objectName =
     (let obj = zero_Object\<lparr>BucketName := bucketName, Name := objectName\<rparr>;
          index = findObject s obj in
      if index < 0 then Inl ''object not found''
      else Inr (bucket_objects s bucketName ! nat index))"

section \<open>Requests, responses and the libraries behind the upload code\<close>

text \<open>
  A Go \<open>error\<close> that is not \<open>nil\<close>: the sentinel \<open>io.EOF\<close>, which the multipart loop
  compares against, or any other error with its message.
\<close>

datatype go_error = EOF | Err string

fun Error :: "go_error \<Rightarrow> string" where
  "Error EOF = ''EOF''"
| "Error (Err msg) = msg"

text \<open>
  \<open>http.Header\<close> and \<open>url.Values\<close> map a key to its list of values; \<open>Get\<close> returns
  the first value or the empty string. The keys the source looks up are already in
  canonical form.
\<close>

type_synonym Values = "string \<rightharpoonup> string list"

definition Get :: "Values \<Rightarrow> string \<Rightarrow> string" where
  "Get h key = (case h key of None \<Rightarrow> [] | Some [] \<Rightarrow> [] | Some (v # vs) \<Rightarrow> v)"

definition Set :: "Values \<Rightarrow> string \<Rightarrow> string \<Rightarrow> Values" where
  "Set h key v = h(key \<mapsto> [v])"

text \<open>Indexing a \<open>map[string]string\<close>: the empty string for a missing key.\<close>

definition index_map :: "(string \<rightharpoonup> string) \<Rightarrow> string \<Rightarrow> string" where
  "index_map m key = (case m key of None \<Rightarrow> [] | Some v \<Rightarrow> v)"

record multipartMetadata =
  mm_ContentType :: string
  mm_ContentEncoding :: string
  mm_Name :: string
  mm_Metadata :: "string \<rightharpoonup> string"

text \<open>
  A body is read through the standard library, which is outside the repository. An
  \<open>io.ReadCloser\<close> is modelled by what its two readers hand back: \<open>ioutil.ReadAll\<close>
  (the bytes read and the error, if any) and \<open>json.NewDecoder(rc).Decode(&m)\<close> (the
  decoded value, filled as far as decoding went, and the error, if any).
\<close>

record ReadCloser =
  ReadAll :: "byte list \<times> go_error option"
  Decode :: "multipartMetadata \<times> go_error option"

record Part =
  PartHeader :: Values
  PartBody :: ReadCloser

text \<open>
  The request. \<open>MediaType\<close> is what \<open>mime.ParseMediaType\<close> returns on the
  Content-Type header (the media type and its parameters, or an error), and
  \<open>NextParts boundary\<close> is what \<open>multipart.NewReader(r.Body, boundary)\<close> delivers:
  the parts that successive \<open>NextPart\<close> calls return and the error that ends them
  (\<open>io.EOF\<close> after the closing boundary).
\<close>

record Request =
  Method :: string
  Query :: Values
  Header :: Values
  Vars :: "string \<rightharpoonup> string"
  Body :: ReadCloser
  MediaType :: "go_error + string \<times> (string \<rightharpoonup> string)"
  NextParts :: "string \<Rightarrow> Part list \<times> go_error"

record jsonResponse =
  status :: int
  header :: Values
  data :: "Object option"
  errorMessage :: string

definition zero_jsonResponse :: jsonResponse where
  "zero_jsonResponse = \<lparr>status = 0, header = Map.empty, data = None, errorMessage = []\<rparr>"

definition StatusOK :: int where "StatusOK = 200"
definition StatusPermanentRedirect :: int where "StatusPermanentRedirect = 308"
definition StatusBadRequest :: int where "StatusBadRequest = 400"
definition StatusNotFound :: int where "StatusNotFound = 404"
definition StatusPreconditionFailed :: int where "StatusPreconditionFailed = 412"
definition StatusNotImplemented :: int where "StatusNotImplemented = 501"

text \<open>
  The digest functions of the standard library are parameters of the model: the CRC32
  checksum with the Castagnoli table, the MD5 sum and the standard base64 encoding.
\<close>

record golib =
  crc32_Castagnoli :: "byte list \<Rightarrow> byte list"
  md5_Sum :: "byte list \<Rightarrow> byte list"
  base64_EncodeToString :: "byte list \<Rightarrow> string"

text \<open>
  A handler either returns its value or panics (a nil pointer dereference): the panic
  is a result of its own.
\<close>

datatype 'a outcome = Return 'a | Panic string

definition nil_dereference :: string where
  "nil_dereference = ''runtime error: invalid memory address or nil pointer dereference''"

section \<open>The upload code\<close>

definition contentTypeHeader :: string where
  "contentTypeHeader = ''Content-Type''"

text \<open>
  Modelled from the spec: \<open>s.backend.GetObject\<close>, which is not among the sources
  ("Get: NotFound if the bucket or the name is absent"); it is the store's \<open>GetObject\<close>.
\<close>

definition backend_GetObject :: "Server \<Rightarrow> string \<Rightarrow> string \<Rightarrow> string + Object" where
  "backend_GetObject s bucketName objectName = GetObject s bucketName objectName"

text \<open>
  Modelled from the spec: \<open>s.createObject\<close>, which is not among the sources ("delegates
  to Object Store.create; returns the stored object or the store's error verbatim"); the
  store's \<open>CreateObject\<close> has no error.
\<close>

definition createObject :: "Server \<Rightarrow> Object \<Rightarrow> (go_error + Object) \<times> Server" where
  "createObject s obj = (Inr obj, CreateObject s obj)"

text \<open>\<open>checkUploadPreconditions\<close> (lines 81 to 99): no response means that the upload goes on.\<close>

definition checkUploadPreconditions :: "Server \<Rightarrow> Request \<Rightarrow> string \<Rightarrow> string \<Rightarrow> jsonResponse option" where
  "checkUploadPreconditions s r bucketName objectName =
     (let ifGenerationMatch = Get (Query r) ''ifGenerationMatch'' in
      if ifGenerationMatch = ''0'' then
        (case backend_GetObject s bucketName objectName of
           Inr found \<Rightarrow>
             Some (zero_jsonResponse\<lparr>status := StatusPreconditionFailed,
                                     errorMessage := ''Precondition failed''\<rparr>)
         | Inl err \<Rightarrow> None)
      else if ifGenerationMatch \<noteq> [] \<or> Get (Query r) ''ifGenerationNotMatch'' \<noteq> [] then
        Some (zero_jsonResponse\<lparr>status := StatusNotImplemented,
                                errorMessage := ''Precondition support not implemented''\<rparr>)
      else None)"

text \<open>\<open>getObjectACL\<close> and the digest helpers (lines 174 to 221).\<close>

definition getObjectACL :: "string \<Rightarrow> ACLRule list" where
  "getObjectACL predefinedACL =
     (if predefinedACL = ''publicRead'' then [\<lparr>Entity = ''allUsers'', Role = ''READER''\<rparr>]
      else [\<lparr>Entity = ''projectOwner'', Role = ''OWNER''\<rparr>])"

definition crc32cChecksum :: "golib \<Rightarrow> byte list \<Rightarrow> byte list" where
  "crc32cChecksum lib content = crc32_Castagnoli lib content"

definition encodedChecksum :: "golib \<Rightarrow> byte list \<Rightarrow> string" where
  "encodedChecksum lib checksum = base64_EncodeToString lib checksum"

definition encodedCrc32cChecksum :: "golib \<Rightarrow> byte list \<Rightarrow> string" where
  "encodedCrc32cChecksum lib content = encodedChecksum lib (crc32cChecksum lib content)"

definition md5Hash :: "golib \<Rightarrow> byte list \<Rightarrow> byte list" where
  "md5Hash lib b = md5_Sum lib b"

definition encodedHash :: "golib \<Rightarrow> byte list \<Rightarrow> string" where
  "encodedHash lib hash = base64_EncodeToString lib hash"

definition encodedMd5Hash :: "golib \<Rightarrow> byte list \<Rightarrow> string" where
  "encodedMd5Hash lib content = encodedHash lib (md5Hash lib content)"

text \<open>\<open>loadMetadata\<close> and \<open>loadContent\<close> (lines 470 to 480).\<close>

definition loadMetadata :: "ReadCloser \<Rightarrow> multipartMetadata \<times> go_error option" where
  "loadMetadata rc = Decode rc"

definition loadContent :: "ReadCloser \<Rightarrow> byte list \<times> go_error option" where
  "loadContent rc = ReadAll rc"

text \<open>
  \<open>generateUploadID\<close>: \<open>rand.Read\<close> fills the 16 bytes of \<open>raw\<close> or fails; what it
  does is an argument of the model.
\<close>

definition generateUploadID :: "go_error + byte list \<Rightarrow> go_error + string" where
  "generateUploadID rand_Read =
     (case rand_Read of
        Inl err \<Rightarrow> Inl err
      | Inr raw \<Rightarrow> Inr (Sprintf_x raw))"

text \<open>
  \<open>multipartUpload\<close> (lines 223 to 281). Its loop over the parts: the first part is the metadata, each
  later part the content. It stops at the first error, which is the error of a part or
  the one that ends the parts.
\<close>

fun multipart_loop ::
  "Part list \<Rightarrow> go_error \<Rightarrow> multipartMetadata option \<times> byte list \<times> string \<Rightarrow>
   (multipartMetadata option \<times> byte list \<times> string) \<times> go_error" where
  "multipart_loop [] end_err vars = (vars, end_err)"
| "multipart_loop (part # rest) end_err (metadata, content, contentType) =
     (case metadata of
        None \<Rightarrow>
          (case loadMetadata (PartBody part) of
             (m, err) \<Rightarrow>
               (case err of
                  Some e \<Rightarrow> ((Some m, content, mm_ContentType m), e)
                | None \<Rightarrow> multipart_loop rest end_err (Some m, content, mm_ContentType m)))
      | Some m0 \<Rightarrow>
          (case loadContent (PartBody part) of
             (c, err) \<Rightarrow>
               (case err of
                  Some e \<Rightarrow> ((metadata, c, Get (PartHeader part) contentTypeHeader), e)
                | None \<Rightarrow>
                    multipart_loop rest end_err
                      (metadata, c, Get (PartHeader part) contentTypeHeader))))"

definition multipartUpload ::
  "golib \<Rightarrow> Server \<Rightarrow> string \<Rightarrow> Request \<Rightarrow> jsonResponse outcome \<times> Server" where
  "multipartUpload lib s bucketName r =
     (case MediaType r of
        Inl err \<Rightarrow>
          (Return (zero_jsonResponse\<lparr>status := StatusBadRequest,
                                      errorMessage := ''invalid Content-Type header''\<rparr>), s)
      | Inr (mediatype, params) \<Rightarrow>
          (case NextParts r (index_map params ''boundary'') of
             (parts, end_err) \<Rightarrow>
          (case multipart_loop parts end_err (None, [], []) of
             ((metadata, content, contentType), err) \<Rightarrow>
               if err \<noteq> EOF then (Return (zero_jsonResponse\<lparr>errorMessage := Error err\<rparr>), s)
               else
                 let objName0 = Get (Query r) ''name'';
                     predefinedACL = Get (Query r) ''predefinedAcl''
                 in
                 (case (if objName0 = [] then
                          (case metadata of
                             None \<Rightarrow> Panic nil_dereference
                           | Some m \<Rightarrow> Return (mm_Name m))
                        else Return objName0) of
                    Panic msg \<Rightarrow> (Panic msg, s)
                  | Return objName \<Rightarrow>
                      (case checkUploadPreconditions s r bucketName objName of
                         Some resp \<Rightarrow> (Return resp, s)
                       | None \<Rightarrow>
                           (case metadata of
                              None \<Rightarrow> (Panic nil_dereference, s)
                            | Some m \<Rightarrow>
                                let obj =
                                  \<lparr>BucketName = bucketName,
                                   Name = objName,
                                   Content = content,
                                   ContentType = contentType,
                                   ContentEncoding = mm_ContentEncoding m,
                                   Crc32c = encodedCrc32cChecksum lib content,
                                   Md5Hash = encodedMd5Hash lib content,
                                   ACL = getObjectACL predefinedACL,
                                   Metadata = mm_Metadata m\<rparr>
                                in
                                (case createObject s obj of
                                   (Inl cerr, s') \<Rightarrow>
                                     (Return (zero_jsonResponse\<lparr>errorMessage := Error cerr\<rparr>), s')
                                 | (Inr created, s') \<Rightarrow>
                                     (Return (zero_jsonResponse\<lparr>data := Some created\<rparr>), s'))))))))"

text \<open>
  \<open>resumableUpload\<close> (lines 283 to 316). The object literal leaves \<open>Content\<close>,
  \<open>ContentType\<close> and the digests at their zero values.
\<close>

definition resumableUpload ::
  "golib \<Rightarrow> Server \<Rightarrow> string \<Rightarrow> Request \<Rightarrow> go_error + byte list \<Rightarrow> jsonResponse \<times> Server" where
  "resumableUpload lib s bucketName r rand_Read =
     (let predefinedACL = Get (Query r) ''predefinedAcl'';
          contentEncoding = Get (Query r) ''contentEncoding''
      in
      case loadMetadata (Body r) of
        (metadata, Some err) \<Rightarrow> (zero_jsonResponse\<lparr>errorMessage := Error err\<rparr>, s)
      | (metadata, None) \<Rightarrow>
          let objName0 = Get (Query r) ''name'';
              objName = (if objName0 = [] then mm_Name metadata else objName0);
              obj = zero_Object
                \<lparr>BucketName := bucketName,
                 Name := objName,
                 ContentEncoding := contentEncoding,
                 ACL := getObjectACL predefinedACL,
                 Metadata := mm_Metadata metadata\<rparr>
          in
          (case generateUploadID rand_Read of
             Inl err \<Rightarrow> (zero_jsonResponse\<lparr>errorMessage := Error err\<rparr>, s)
           | Inr uploadID \<Rightarrow>
               let s' = s\<lparr>uploads := (uploads s)(uploadID \<mapsto> obj)\<rparr>;
                   header0 = Set Map.empty ''Location'' (URL s @ ''/upload/resumable/'' @ uploadID);
                   header1 =
                     (if Get (Header r) ''X-Goog-Upload-Command'' = ''start'' then
                        Set (Set header0 ''X-Goog-Upload-URL''
                               (URL s @ ''/upload/resumable/'' @ uploadID))
                          ''X-Goog-Upload-Status'' ''active''
                      else header0)
               in (zero_jsonResponse\<lparr>data := Some obj, header := header1\<rparr>, s')))"

text \<open>
  \<open>uploadFileContent\<close> (lines 353 to 410), in three steps: the assignments that append the chunk to
  the object of the session, ...
\<close>

definition chunkObject :: "golib \<Rightarrow> Object \<Rightarrow> byte list \<Rightarrow> Request \<Rightarrow> Object" where
  "chunkObject lib rawObj content r =
     rawObj
       \<lparr>Content := Content rawObj @ content,
        Crc32c := encodedCrc32cChecksum lib (Content rawObj @ content),
        Md5Hash := encodedMd5Hash lib (Content rawObj @ content),
        ContentType := Get (Header r) contentTypeHeader\<rparr>"

text \<open>
  ... the part that looks at the Content-Range header and yields the response header
  and \<open>commit\<close>, or the error of the parser, ...
\<close>

definition rangeDecision :: "Request \<Rightarrow> Object \<Rightarrow> string + Values \<times> bool" where
  "rangeDecision r obj =
     (let contentRange = Get (Header r) ''Content-Range'' in
      if contentRange \<noteq> [] then
        (case parseContentRange contentRange of
           Inl err \<Rightarrow> Inl err
         | Inr parsed \<Rightarrow>
             if KnownRange parsed then
               Inr (Set Map.empty ''Range'' (''bytes=0-'' @ Sprintf_d (End parsed)),
                    KnownTotal parsed \<and> wrap_int (End parsed + 1) \<ge> Total parsed)
             else
               Inr (Set Map.empty ''Range''
                      (''bytes=0-'' @ Sprintf_d (int (length (Content obj)))),
                    True))
      else Inr (Map.empty, True))"

text \<open>
  ... and the handler itself; \<open>finalizeHeader\<close> is its last statement before the
  return, which both the committing and the continuing path reach.
\<close>

definition finalizeHeader :: "Request \<Rightarrow> Values \<Rightarrow> Values" where
  "finalizeHeader r responseHeader =
     (if Get (Header r) ''X-Goog-Upload-Command'' = ''upload, finalize''
      then Set responseHeader ''X-Goog-Upload-Status'' ''final''
      else responseHeader)"

definition uploadFileContent :: "golib \<Rightarrow> Server \<Rightarrow> Request \<Rightarrow> jsonResponse \<times> Server" where
  "uploadFileContent lib s r =
     (let uploadID = index_map (Vars r) ''uploadId'' in
      case uploads s uploadID of
        None \<Rightarrow> (zero_jsonResponse\<lparr>status := StatusNotFound\<rparr>, s)
      | Some rawObj \<Rightarrow>
          (case loadContent (Body r) of
             (content, Some err) \<Rightarrow> (zero_jsonResponse\<lparr>errorMessage := Error err\<rparr>, s)
           | (content, None) \<Rightarrow>
               let obj = chunkObject lib rawObj content r in
               (case rangeDecision r obj of
                  Inl err \<Rightarrow>
                    (zero_jsonResponse\<lparr>errorMessage := err, status := StatusBadRequest\<rparr>, s)
                | Inr (responseHeader, commit) \<Rightarrow>
                    if commit then
                      (case createObject (s\<lparr>uploads := (uploads s)(uploadID := None)\<rparr>) obj of
                         (Inl cerr, s') \<Rightarrow> (zero_jsonResponse\<lparr>errorMessage := Error cerr\<rparr>, s')
                       | (Inr created, s') \<Rightarrow>
                           (\<lparr>status = StatusOK, header = finalizeHeader r responseHeader,
                             data = Some created, errorMessage = []\<rparr>, s'))
                    else
                      let no308 = (Header r ''X-Guploader-No-308'' \<noteq> None);
                          responseHeader' =
                            (if no308 then Set responseHeader ''X-Http-Status-Code-Override'' ''308''
                             else responseHeader);
                          status' = (if no308 then StatusOK else StatusPermanentRedirect)
                      in
                      (\<lparr>status = status', header = finalizeHeader r responseHeader',
                        data = Some obj, errorMessage = []\<rparr>,
                       s\<lparr>uploads := (uploads s)(uploadID \<mapsto> obj)\<rparr>))))"

section \<open>Predicates of the specification and sample values\<close>

text \<open>
  The selection that the specification gives for a listing: the name has the prefix, and
  what follows the prefix does not contain the delimiter, unless the delimiter is empty.
\<close>

definition spec_kept :: "string \<Rightarrow> string \<Rightarrow> Object \<Rightarrow> bool" where
  "spec_kept pre delimiter obj \<longleftrightarrow>
     prefix pre (Name obj) \<and>
     (delimiter = [] \<or> \<not> sublist delimiter (drop (length pre) (Name obj)))"

text \<open>
  The representation invariant of the store: every object is kept in the list of its own
  bucket. \<open>CreateObject\<close> is the only writer of the bucket map and files an object under
  its own bucket name.
\<close>

definition owned :: "Server \<Rightarrow> bool" where
  "owned s \<longleftrightarrow> (\<forall>b. \<forall>ob \<in> set (bucket_objects s b). BucketName ob = b)"

text \<open>Each identity, the pair of bucket name and name, occurs at most once.\<close>

definition unique_identity :: "Server \<Rightarrow> bool" where
  "unique_identity s \<longleftrightarrow>
     (\<forall>b. distinct (map (\<lambda>ob. (BucketName ob, Name ob)) (bucket_objects s b)))"

text \<open>Sample values: a store with the objects \<open>d\<close>, \<open>a/c\<close> and \<open>a/b\<close> in one bucket.\<close>

definition sample_object :: "string \<Rightarrow> string \<Rightarrow> byte list \<Rightarrow> Object" where
  "sample_object b n c = zero_Object\<lparr>BucketName := b, Name := n, Content := c\<rparr>"

definition sample_store :: Server where
  "sample_store =
     \<lparr>buckets = [''bkt'' \<mapsto> [sample_object ''bkt'' ''d'' [3], sample_object ''bkt'' ''a/c'' [2],
                            sample_object ''bkt'' ''a/b'' [1]]],
      uploads = Map.empty,
      URL = ''http://gcs''\<rparr>"

text \<open>
  Sample requests. The sample library is a stand-in with the types of the three digest
  functions; every theorem below holds for any library.
\<close>

definition sample_lib :: golib where
  "sample_lib =
     \<lparr>crc32_Castagnoli = (\<lambda>content. take 4 (content @ [0, 0, 0, 0])),
      md5_Sum = (\<lambda>content. take 16 (rev content @ replicate 16 0)),
      base64_EncodeToString = Sprintf_x\<rparr>"

definition zero_multipartMetadata :: multipartMetadata where
  "zero_multipartMetadata =
     \<lparr>mm_ContentType = [], mm_ContentEncoding = [], mm_Name = [], mm_Metadata = Map.empty\<rparr>"

definition sample_body :: "byte list \<Rightarrow> ReadCloser" where
  "sample_body content =
     \<lparr>ReadAll = (content, None),
      Decode = (zero_multipartMetadata, Some (Err ''invalid character''))\<rparr>"

definition sample_request :: Request where
  "sample_request =
     \<lparr>Method = ''PUT'', Query = Map.empty, Header = Map.empty, Vars = Map.empty,
      Body = sample_body [],
      MediaType = Inl (Err ''mime: no media type''),
      NextParts = (\<lambda>boundary. ([], Err ''multipart: NextPart: EOF''))\<rparr>"

text \<open>
  The request that starts a resumable upload of the object \<open>obj\<close>; its metadata names
  a content type and a content encoding.
\<close>

definition sample_initiate :: Request where
  "sample_initiate =
     sample_request
       \<lparr>Method := ''POST'',
        Query := [''uploadType'' \<mapsto> [''resumable''], ''name'' \<mapsto> [''obj'']],
        Body := \<lparr>ReadAll = ([], None),
                  Decode = (zero_multipartMetadata\<lparr>mm_ContentType := ''image/png'',
                              mm_ContentEncoding := ''gzip''\<rparr>, None)\<rparr>\<rparr>"

definition sample_raw :: "byte list" where
  "sample_raw = [1, 2, 3, 4, 5, 6, 7, 8, 9, 10, 11, 12, 13, 14, 15, 16]"

definition sample_uploadID :: string where
  "sample_uploadID = ''0102030405060708090a0b0c0d0e0f10''"

text \<open>A chunk request of the sample upload, with a Content-Range header and a body.\<close>

definition sample_chunk :: "string \<Rightarrow> byte list \<Rightarrow> Request" where
  "sample_chunk contentRange content =
     sample_request
       \<lparr>Header := [''Content-Range'' \<mapsto> [contentRange], ''Content-Type'' \<mapsto> [''text/plain'']],
        Vars := [''uploadId'' \<mapsto> sample_uploadID],
        Body := sample_body content\<rparr>"

text \<open>A store in which the sample upload has been started and holds one byte.\<close>

definition sample_session :: Server where
  "sample_session =
     sample_store\<lparr>uploads := [sample_uploadID \<mapsto> sample_object ''bkt'' ''obj'' [7]]\<rparr>"

text \<open>
  A multipart request without a \<open>name\<close> parameter whose body is the closing boundary
  alone: the first \<open>NextPart\<close> returns \<open>io.EOF\<close>.
\<close>

definition sample_multipart_empty :: Request where
  "sample_multipart_empty =
     sample_request
       \<lparr>Method := ''POST'',
        Query := [''uploadType'' \<mapsto> [''multipart'']],
        Header := [''Content-Type'' \<mapsto> [''multipart/related; boundary=x'']],
        MediaType := Inr (''multipart/related'', [''boundary'' \<mapsto> ''x'']),
        NextParts := (\<lambda>boundary. ([], EOF))\<rparr>"

section \<open>Facts about the string functions\<close>

lemma HasPrefix_iff_prefix: "HasPrefix s pre \<longleftrightarrow> prefix pre s"
  unfolding HasPrefix_def prefix_def
  by (metis append_eq_conv_conj append_take_drop_id length_append le_add1)

lemma Index_single:
  "Index s [c] = (if c \<in> set s then Some (length (takeWhile (\<lambda>x. x \<noteq> c) s)) else None)"
  by (induction s) (auto simp: HasPrefix_def)

lemma SplitN2_single:
  "SplitN2 s [c] =
     (if c \<in> set s then [takeWhile (\<lambda>x. x \<noteq> c) s, tl (dropWhile (\<lambda>x. x \<noteq> c) s)] else [s])"
proof (cases "c \<in> set s")
  case False
  then show ?thesis by (simp add: SplitN2_def Index_single)
next
  case True
  have t: "take (length (takeWhile (\<lambda>x. x \<noteq> c) s)) s = takeWhile (\<lambda>x. x \<noteq> c) s"
    by (metis append_eq_conv_conj takeWhile_dropWhile_id)
  have d: "drop (length (takeWhile (\<lambda>x. x \<noteq> c) s)) s = dropWhile (\<lambda>x. x \<noteq> c) s"
    by (metis append_eq_conv_conj takeWhile_dropWhile_id)
  have "drop (length (takeWhile (\<lambda>x. x \<noteq> c) s) + 1) s = tl (dropWhile (\<lambda>x. x \<noteq> c) s)"
    using d by (metis drop_Suc drop_drop tl_drop add.commute plus_1_eq_Suc)
  with True t show ?thesis by (simp add: SplitN2_def Index_single)
qed

lemma SplitN2_absent: "c \<notin> set s \<Longrightarrow> SplitN2 s [c] = [s]"
  by (simp add: SplitN2_single)

lemma SplitN2_first: "c \<notin> set a \<Longrightarrow> SplitN2 (a @ c # b) [c] = [a, b]"
  by (simp add: SplitN2_single takeWhile_append dropWhile_append)

lemma first_split_unique:
  assumes "a @ c # b = a' @ c # b'" and "c \<notin> set a" and "c \<notin> set a'"
  shows "a = a' \<and> b = b'"
proof -
  have "takeWhile (\<lambda>x. x \<noteq> c) (a @ c # b) = a" "takeWhile (\<lambda>x. x \<noteq> c) (a' @ c # b') = a'"
    using assms(2,3) by (simp_all add: takeWhile_append)
  with assms(1) have "a = a'" by simp
  with assms(1) show ?thesis by simp
qed

lemma Index_None_iff: "Index s sub = None \<longleftrightarrow> \<not> sublist sub s"
  by (induction s) (auto simp: HasPrefix_iff_prefix sublist_Cons_right)

lemma Contains_iff_sublist: "Contains s sub \<longleftrightarrow> sublist sub s"
  by (simp add: Contains_def Index_None_iff)

lemma Index_prefix: "HasPrefix s pre \<Longrightarrow> Index s pre = Some 0"
  by (cases s) (auto simp: HasPrefix_def)

lemma Replace1_prefix: "HasPrefix s pre \<Longrightarrow> Replace1 s pre = drop (length pre) s"
  by (simp add: Replace1_def Index_prefix)

text \<open>A string that \<open>Atoi\<close> accepts and that has no minus sign is not negative.\<close>

lemma Atoi_nonneg:
  assumes "Atoi s = Some v" and "CHR ''-'' \<notin> set s"
  shows "0 \<le> v"
  using assms by (auto simp: Atoi_def Let_def split: list.splits option.splits if_splits)

lemma Atoi_range: "Atoi s = Some v \<Longrightarrow> int_min \<le> v \<and> v \<le> int_max"
  by (auto simp: Atoi_def Let_def split: list.splits option.splits if_splits)

lemma digits_value_Some_iff:
  "digits_value n ds \<noteq> None \<longleftrightarrow> (\<forall>c \<in> set ds. digit_of c \<noteq> None)"
  by (induction ds arbitrary: n) (auto split: option.splits)

text \<open>
  What \<open>Atoi\<close> accepts: an optional sign followed by one or more decimal digits, the
  value being in the range of \<open>int\<close>.
\<close>

lemma Atoi_Some_iff:
  "Atoi s = Some v \<longleftrightarrow>
     (\<exists>sg ds n. s = sg @ ds \<and> (sg = [] \<or> sg = ''-'' \<or> sg = ''+'') \<and> ds \<noteq> [] \<and>
        (\<forall>c \<in> set ds. digit_of c \<noteq> None) \<and> digits_value 0 ds = Some n \<and>
        v = (if sg = ''-'' then - int n else int n) \<and> int_min \<le> v \<and> v \<le> int_max)"
  (is "?L \<longleftrightarrow> ?R")
proof
  assume L: ?L
  then obtain c cs where s: "s = c # cs" by (cases s) (auto simp: Atoi_def)
  define ds where "ds = (if c = CHR ''-'' \<or> c = CHR ''+'' then cs else s)"
  define sg where "sg = (if c = CHR ''-'' \<or> c = CHR ''+'' then [c] else [])"
  from L s obtain n where n: "ds \<noteq> []" "digits_value 0 ds = Some n"
    "v = (if c = CHR ''-'' then - int n else int n)" "int_min \<le> v" "v \<le> int_max"
    unfolding ds_def by (auto simp: Atoi_def Let_def split: option.splits if_splits)
  from n(2) have dg: "\<forall>ch \<in> set ds. digit_of ch \<noteq> None"
    using digits_value_Some_iff[of 0 ds] by simp
  have sd: "s = sg @ ds" by (simp add: s sg_def ds_def)
  have sgs: "sg = [] \<or> sg = ''-'' \<or> sg = ''+''" by (auto simp: sg_def)
  have neg: "(sg = ''-'') = (c = CHR ''-'')" by (auto simp: sg_def)
  from n dg sd sgs show ?R
    by (intro exI[of _ sg] exI[of _ ds] exI[of _ n]) (simp add: neg)
next
  assume ?R
  then obtain sg ds n where r: "s = sg @ ds" "sg = [] \<or> sg = ''-'' \<or> sg = ''+''" "ds \<noteq> []"
    "\<forall>c \<in> set ds. digit_of c \<noteq> None" "digits_value 0 ds = Some n"
    "v = (if sg = ''-'' then - int n else int n)" "int_min \<le> v" "v \<le> int_max"
    by blast
  from r(3) obtain d ds' where ds: "ds = d # ds'" by (cases ds) auto
  with r(4) have "digit_of d \<noteq> None" by simp
  then have hd: "d \<noteq> CHR ''-''" "d \<noteq> CHR ''+''"
    by (auto simp: digit_of_def)
  from r(2) show ?L
  proof (elim disjE)
    assume "sg = []"
    with r hd ds show ?L by (simp add: Atoi_def Let_def)
  next
    assume "sg = ''-''"
    with r ds show ?L by (simp add: Atoi_def Let_def)
  next
    assume "sg = ''+''"
    with r ds show ?L by (simp add: Atoi_def Let_def)
  qed
qed

section \<open>The Content-Range parser\<close>

lemmas parse_eval =
  parseContentRange_def processRange_def processTotal_def SplitN2_def HasPrefix_def
  bytesPrefix_def Atoi_def digit_of_def zero_contentRange_def invalidErr_def
  int_min_def int_max_def

lemma processRange_Inr:
  assumes "processRange r rg zero_contentRange = Inr p"
  shows "KnownTotal p = False \<and> Total p = 0 \<and>
         (if KnownRange p then 0 \<le> Start p \<and> rg \<noteq> ''*''
          else Start p = - 1 \<and> End p = - 1 \<and> rg = ''*'')"
proof (cases "rg = ''*''")
  case True
  with assms show ?thesis by (auto simp: processRange_def zero_contentRange_def)
next
  case False
  show ?thesis
  proof (cases "CHR ''-'' \<in> set rg")
    case no: False
    with False assms show ?thesis by (simp add: processRange_def SplitN2_single)
  next
    case True
    have "CHR ''-'' \<notin> set (takeWhile (\<lambda>x. x \<noteq> CHR ''-'') rg)"
      by (auto dest: set_takeWhileD)
    with True False assms show ?thesis
      by (auto simp: processRange_def SplitN2_single zero_contentRange_def
               split: option.splits dest: Atoi_nonneg)
  qed
qed

lemma processRange_fail_iff:
  "isl (processRange r rg z) \<longleftrightarrow>
     rg \<noteq> ''*'' \<and>
     \<not> (\<exists>a b. rg = a @ ''-'' @ b \<and> CHR ''-'' \<notin> set a \<and> Atoi a \<noteq> None \<and> Atoi b \<noteq> None)"
proof (cases "rg = ''*''")
  case True
  then show ?thesis by (simp add: processRange_def)
next
  case star: False
  show ?thesis
  proof (cases "CHR ''-'' \<in> set rg")
    case False
    then have "\<not> (\<exists>a b. rg = a @ ''-'' @ b)" by auto
    with False star show ?thesis by (simp add: processRange_def SplitN2_absent)
  next
    case True
    from split_list_first[OF True]
    obtain a0 b0 where rg: "rg = a0 @ CHR ''-'' # b0" and a0: "CHR ''-'' \<notin> set a0"
      by blast
    have ex: "(\<exists>a b. rg = a @ ''-'' @ b \<and> CHR ''-'' \<notin> set a \<and> Atoi a \<noteq> None \<and> Atoi b \<noteq> None)
              \<longleftrightarrow> Atoi a0 \<noteq> None \<and> Atoi b0 \<noteq> None" (is "?E \<longleftrightarrow> ?R")
    proof
      assume ?E
      then obtain a b where ab: "rg = a @ ''-'' @ b" "CHR ''-'' \<notin> set a"
        and ok: "Atoi a \<noteq> None" "Atoi b \<noteq> None" by blast
      from ab(1) rg have "a @ CHR ''-'' # b = a0 @ CHR ''-'' # b0" by simp
      from first_split_unique[OF this ab(2) a0] ok show ?R by simp
    next
      assume ?R
      with rg a0 show ?E by (intro exI[of _ a0] exI[of _ b0]) simp
    qed
    have "isl (processRange r rg z) \<longleftrightarrow> \<not> (Atoi a0 \<noteq> None \<and> Atoi b0 \<noteq> None)"
      using star a0 by (auto simp: processRange_def rg SplitN2_first nth_Cons' split: option.splits)
    with ex star show ?thesis by simp
  qed
qed

lemma processTotal_fail_iff:
  "isl (processTotal r tot q) \<longleftrightarrow>
     (tot = ''*'' \<and> \<not> KnownRange q) \<or> (tot \<noteq> ''*'' \<and> Atoi tot = None)"
  by (auto simp: processTotal_def split: option.splits)

lemma bytes_rest:
  assumes "r = ''bytes '' @ rest"
  shows "HasPrefix r bytesPrefix" and "drop (length bytesPrefix) r = rest"
  using assms by (simp_all add: HasPrefix_def bytesPrefix_def)

lemma parse_no_prefix: "\<not> prefix ''bytes '' r \<Longrightarrow> isl (parseContentRange r)"
  by (simp add: parseContentRange_def HasPrefix_iff_prefix bytesPrefix_def)

lemma parse_no_slash:
  assumes "r = ''bytes '' @ rest" and "CHR ''/'' \<notin> set rest"
  shows "isl (parseContentRange r)"
  unfolding parseContentRange_def
  by (simp add: bytes_rest[OF assms(1)] SplitN2_absent[OF assms(2)])

lemma parse_split:
  assumes "r = ''bytes '' @ rg @ CHR ''/'' # tot" and "CHR ''/'' \<notin> set rg"
  shows "parseContentRange r =
     (case processRange r rg zero_contentRange of
        Inl e \<Rightarrow> Inl e
      | Inr parsed \<Rightarrow> processTotal r tot parsed)"
  unfolding parseContentRange_def
  by (simp add: bytes_rest[OF assms(1)] SplitN2_first[OF assms(2)] nth_Cons' split: sum.splits)

lemma parse_split_fail_iff:
  assumes "r = ''bytes '' @ rg @ CHR ''/'' # tot" and "CHR ''/'' \<notin> set rg"
  shows "isl (parseContentRange r) \<longleftrightarrow>
     (rg \<noteq> ''*'' \<and>
        \<not> (\<exists>a b. rg = a @ ''-'' @ b \<and> CHR ''-'' \<notin> set a \<and> Atoi a \<noteq> None \<and> Atoi b \<noteq> None))
     \<or> (tot \<noteq> ''*'' \<and> Atoi tot = None)
     \<or> (rg = ''*'' \<and> tot = ''*'')"
proof (cases "processRange r rg zero_contentRange")
  case (Inl e)
  then have "isl (processRange r rg zero_contentRange)" by simp
  then have "rg \<noteq> ''*'' \<and>
        \<not> (\<exists>a b. rg = a @ ''-'' @ b \<and> CHR ''-'' \<notin> set a \<and> Atoi a \<noteq> None \<and> Atoi b \<noteq> None)"
    using processRange_fail_iff[of r rg zero_contentRange] by blast
  moreover have "isl (parseContentRange r)"
    by (simp add: parse_split[OF assms] Inl)
  ultimately show ?thesis by blast
next
  case (Inr q)
  then have "\<not> isl (processRange r rg zero_contentRange)" by simp
  then have ok: "rg = ''*'' \<or>
        (\<exists>a b. rg = a @ ''-'' @ b \<and> CHR ''-'' \<notin> set a \<and> Atoi a \<noteq> None \<and> Atoi b \<noteq> None)"
    using processRange_fail_iff[of r rg zero_contentRange] by blast
  from processRange_Inr[OF Inr] have kr: "KnownRange q \<longleftrightarrow> rg \<noteq> ''*''"
    by (auto split: if_splits)
  have "isl (parseContentRange r) \<longleftrightarrow>
        (tot = ''*'' \<and> rg = ''*'') \<or> (tot \<noteq> ''*'' \<and> Atoi tot = None)"
    by (simp add: parse_split[OF assms] Inr processTotal_fail_iff kr)
  with ok show ?thesis by blast
qed

lemma parseContentRange_fails_iff:
  "isl (parseContentRange r) \<longleftrightarrow>
      \<not> prefix ''bytes '' r
    \<or> (\<exists>rest. r = ''bytes '' @ rest \<and> CHR ''/'' \<notin> set rest)
    \<or> (\<exists>rg tot. r = ''bytes '' @ rg @ ''/'' @ tot \<and> CHR ''/'' \<notin> set rg \<and>
         ((rg \<noteq> ''*'' \<and>
            \<not> (\<exists>a b. rg = a @ ''-'' @ b \<and> CHR ''-'' \<notin> set a \<and> Atoi a \<noteq> None \<and> Atoi b \<noteq> None))
          \<or> (tot \<noteq> ''*'' \<and> Atoi tot = None)
          \<or> (rg = ''*'' \<and> tot = ''*'')))"
  (is "?L \<longleftrightarrow> ?A \<or> ?B \<or> ?C")
proof (cases "prefix ''bytes '' r")
  case False
  then show ?thesis by (simp add: parse_no_prefix)
next
  case True
  then obtain rest where r: "r = ''bytes '' @ rest" by (auto simp: prefix_def)
  show ?thesis
  proof (cases "CHR ''/'' \<in> set rest")
    case False
    have "?L" by (rule parse_no_slash[OF r False])
    moreover have "?B" using r False by blast
    ultimately show ?thesis by blast
  next
    case slash: True
    from split_list_first[OF slash]
    obtain rg tot where rest: "rest = rg @ CHR ''/'' # tot" and rg: "CHR ''/'' \<notin> set rg"
      by blast
    have nB: "\<not> ?B"
    proof
      assume ?B
      then obtain rest' where "r = ''bytes '' @ rest'" "CHR ''/'' \<notin> set rest'" by blast
      with r slash show False by simp
    qed
    have C: "?C \<longleftrightarrow>
      ((rg \<noteq> ''*'' \<and>
            \<not> (\<exists>a b. rg = a @ ''-'' @ b \<and> CHR ''-'' \<notin> set a \<and> Atoi a \<noteq> None \<and> Atoi b \<noteq> None))
          \<or> (tot \<noteq> ''*'' \<and> Atoi tot = None)
          \<or> (rg = ''*'' \<and> tot = ''*''))" (is "_ \<longleftrightarrow> ?D")
    proof
      assume ?C
      then obtain rg' tot' where e: "r = ''bytes '' @ rg' @ ''/'' @ tot'" and n: "CHR ''/'' \<notin> set rg'"
        and d: "((rg' \<noteq> ''*'' \<and>
            \<not> (\<exists>a b. rg' = a @ ''-'' @ b \<and> CHR ''-'' \<notin> set a \<and> Atoi a \<noteq> None \<and> Atoi b \<noteq> None))
          \<or> (tot' \<noteq> ''*'' \<and> Atoi tot' = None)
          \<or> (rg' = ''*'' \<and> tot' = ''*''))" by blast
      from e r rest have "rg @ CHR ''/'' # tot = rg' @ CHR ''/'' # tot'" by simp
      from first_split_unique[OF this rg n] d show ?D by simp
    next
      assume ?D
      with r rest rg show ?C by (intro exI[of _ rg] exI[of _ tot]) simp
    qed
    have "r = ''bytes '' @ rg @ CHR ''/'' # tot" using r rest by simp
    from parse_split_fail_iff[OF this rg] have "?L \<longleftrightarrow> ?D" .
    with C nB True show ?thesis by blast
  qed
qed

text \<open>
  Claim C6. The parser maps \<open>bytes 0-999/2600\<close>, \<open>bytes */2600\<close> and \<open>bytes 0-999/*\<close> to
  the values of the specification and rejects \<open>bytes */*\<close>. It fails exactly when the
  \<open>bytes\<close> prefix is missing, or there is no slash after it, or, the range being what
  lies before the first slash and the total what lies after it: the range is not \<open>*\<close>
  and not two integers around its first \<open>-\<close>, or the total is not \<open>*\<close> and not an
  integer, or both are \<open>*\<close>. An integer is what \<open>strconv.Atoi\<close> accepts: an optional
  sign and decimal digits, within the range of \<open>int\<close>.
\<close>

theorem parseContentRange_grammar:
  "parseContentRange ''bytes 0-999/2600'' =
     Inr \<lparr>KnownRange = True, KnownTotal = True, Start = 0, End = 999, Total = 2600\<rparr> \<and>
   parseContentRange ''bytes */2600'' =
     Inr \<lparr>KnownRange = False, KnownTotal = True, Start = - 1, End = - 1, Total = 2600\<rparr> \<and>
   parseContentRange ''bytes 0-999/*'' =
     Inr \<lparr>KnownRange = True, KnownTotal = False, Start = 0, End = 999, Total = - 1\<rparr> \<and>
   parseContentRange ''bytes */*'' = Inl ''invalid Content-Range: bytes */*'' \<and>
   (isl (parseContentRange r) \<longleftrightarrow>
      \<not> prefix ''bytes '' r
    \<or> (\<exists>rest. r = ''bytes '' @ rest \<and> CHR ''/'' \<notin> set rest)
    \<or> (\<exists>rg tot. r = ''bytes '' @ rg @ ''/'' @ tot \<and> CHR ''/'' \<notin> set rg \<and>
         ((rg \<noteq> ''*'' \<and>
            \<not> (\<exists>a b. rg = a @ ''-'' @ b \<and> CHR ''-'' \<notin> set a \<and> Atoi a \<noteq> None \<and> Atoi b \<noteq> None))
          \<or> (tot \<noteq> ''*'' \<and> Atoi tot = None)
          \<or> (rg = ''*'' \<and> tot = ''*''))))"
proof (intro conjI)
  show "parseContentRange ''bytes 0-999/2600'' =
     Inr \<lparr>KnownRange = True, KnownTotal = True, Start = 0, End = 999, Total = 2600\<rparr>"
    by (simp add: parse_eval)
  show "parseContentRange ''bytes */2600'' =
     Inr \<lparr>KnownRange = False, KnownTotal = True, Start = - 1, End = - 1, Total = 2600\<rparr>"
    by (simp add: parse_eval)
  show "parseContentRange ''bytes 0-999/*'' =
     Inr \<lparr>KnownRange = True, KnownTotal = False, Start = 0, End = 999, Total = - 1\<rparr>"
    by (simp add: parse_eval)
  show "parseContentRange ''bytes */*'' = Inl ''invalid Content-Range: bytes */*''"
    by (simp add: parse_eval)
  show "isl (parseContentRange r) \<longleftrightarrow>
      \<not> prefix ''bytes '' r
    \<or> (\<exists>rest. r = ''bytes '' @ rest \<and> CHR ''/'' \<notin> set rest)
    \<or> (\<exists>rg tot. r = ''bytes '' @ rg @ ''/'' @ tot \<and> CHR ''/'' \<notin> set rg \<and>
         ((rg \<noteq> ''*'' \<and>
            \<not> (\<exists>a b. rg = a @ ''-'' @ b \<and> CHR ''-'' \<notin> set a \<and> Atoi a \<noteq> None \<and> Atoi b \<noteq> None))
          \<or> (tot \<noteq> ''*'' \<and> Atoi tot = None)
          \<or> (rg = ''*'' \<and> tot = ''*'')))"
    by (rule parseContentRange_fails_iff)
qed

text \<open>
  The characterisation at \<open>bytes 5/10\<close>, whose range has no \<open>-\<close>: the third case
  applies and the parser fails.
\<close>

theorem parseContentRange_grammar_witness:
  "isl (parseContentRange ''bytes 5/10'')"
proof -
  have no: "\<not> (\<exists>a b. ''5'' = a @ ''-'' @ b \<and> CHR ''-'' \<notin> set a \<and> Atoi a \<noteq> None \<and> Atoi b \<noteq> None)"
  proof
    assume "\<exists>a b. ''5'' = a @ ''-'' @ b \<and> CHR ''-'' \<notin> set a \<and> Atoi a \<noteq> None \<and> Atoi b \<noteq> None"
    then obtain a b where "''5'' = a @ ''-'' @ b" by blast
    then have "CHR ''-'' \<in> set ''5''" by (metis in_set_conv_decomp append_Cons append_Nil)
    then show False by simp
  qed
  have "\<exists>rg tot. ''bytes 5/10'' = ''bytes '' @ rg @ ''/'' @ tot \<and> CHR ''/'' \<notin> set rg \<and>
         ((rg \<noteq> ''*'' \<and>
            \<not> (\<exists>a b. rg = a @ ''-'' @ b \<and> CHR ''-'' \<notin> set a \<and> Atoi a \<noteq> None \<and> Atoi b \<noteq> None))
          \<or> (tot \<noteq> ''*'' \<and> Atoi tot = None)
          \<or> (rg = ''*'' \<and> tot = ''*''))"
    using no by (intro exI[of _ "''5''"] exI[of _ "''10''"]) simp
  with parseContentRange_grammar[of "''bytes 5/10''"] show ?thesis by blast
qed

text \<open>
  Claim C3, as the code has it. On every input that the parser accepts, an unknown range
  has start and end \<open>-1\<close> and an unknown total is \<open>-1\<close>; a known start is never negative,
  so start and end are both \<open>-1\<close> exactly when the range is unknown; and one of range and
  total is known. A known end or a known total is any integer that \<open>Atoi\<close> accepts,
  \<open>-1\<close> included.
\<close>

theorem parseContentRange_sentinel:
  assumes "parseContentRange r = Inr p"
  shows "((Start p = - 1 \<and> End p = - 1) \<longleftrightarrow> \<not> KnownRange p) \<and>
         (KnownRange p \<longrightarrow> 0 \<le> Start p) \<and>
         (\<not> KnownTotal p \<longrightarrow> Total p = - 1) \<and>
         (KnownRange p \<or> KnownTotal p)"
proof -
  from assms obtain q part0 part1 where
    q: "processRange r part0 zero_contentRange = Inr q" and
    p: "processTotal r part1 q = Inr p"
    by (auto simp: parseContentRange_def Let_def split: if_splits sum.splits)
  from processRange_Inr[OF q] p show ?thesis
    by (auto simp: processTotal_def split: if_splits option.splits)
qed

theorem parseContentRange_sentinel_witness:
  "parseContentRange ''bytes */2600'' =
     Inr \<lparr>KnownRange = False, KnownTotal = True, Start = - 1, End = - 1, Total = 2600\<rparr> \<and>
   ((Start \<lparr>KnownRange = False, KnownTotal = True, Start = - 1, End = - 1, Total = 2600\<rparr> = - 1 \<and>
     End \<lparr>KnownRange = False, KnownTotal = True, Start = - 1, End = - 1, Total = 2600\<rparr> = - 1)
      \<longleftrightarrow> \<not> KnownRange \<lparr>KnownRange = False, KnownTotal = True, Start = - 1, End = - 1, Total = 2600\<rparr>)"
proof -
  have h: "parseContentRange ''bytes */2600'' =
     Inr \<lparr>KnownRange = False, KnownTotal = True, Start = - 1, End = - 1, Total = 2600\<rparr>"
    by (simp add: parse_eval)
  from parseContentRange_sentinel[OF h] h show ?thesis by blast
qed

text \<open>
  The input \<open>bytes 0--1/-1\<close> is accepted: the end is known and \<open>-1\<close>, and the total is
  known and \<open>-1\<close>.
\<close>

theorem parseContentRange_sentinel_counterexample:
  "parseContentRange ''bytes 0--1/-1'' =
     Inr \<lparr>KnownRange = True, KnownTotal = True, Start = 0, End = - 1, Total = - 1\<rparr> \<and>
   \<not> (Total \<lparr>KnownRange = True, KnownTotal = True, Start = 0, End = - 1, Total = - 1\<rparr> = - 1
        \<longleftrightarrow> \<not> KnownTotal \<lparr>KnownRange = True, KnownTotal = True, Start = 0, End = - 1, Total = - 1\<rparr>)"
  by (simp add: parse_eval)

section \<open>The object store\<close>

subsection \<open>Listing\<close>

lemma ListObjects_loop_filter:
  "ListObjects_loop objs pre delimiter acc = acc @ filter (spec_kept pre delimiter) objs"
  by (induction objs arbitrary: acc)
     (auto simp: spec_kept_def Let_def HasPrefix_iff_prefix[symmetric] Replace1_prefix Contains_iff_sublist)

lemma ListObjects_found:
  assumes "buckets s bucketName = Some objs"
  shows "fst (ListObjects s bucketName pre delimiter) =
           Inr (filter (spec_kept pre delimiter) (sort_key Name objs))"
  using assms by (simp add: ListObjects_def ListObjects_loop_filter Let_def)

lemma sorted_map_filter: "sorted (map f xs) \<Longrightarrow> sorted (map f (filter P xs))"
  by (induction xs) auto

lemma ListObjects_general:
  assumes "buckets s bucketName = Some objs"
  shows "\<exists>res. fst (ListObjects s bucketName pre delimiter) = Inr res \<and>
           sorted (map Name res) \<and>
           mset res = filter_mset (spec_kept pre delimiter) (mset objs)"
  by (simp add: ListObjects_found[OF assms] sorted_map_filter)

lemma map_sort_key_eq: "map f (sort_key f xs) = sort (map f xs)"
  by (rule properties_for_sort[symmetric]) simp_all

lemma names_example:
  assumes "mset (map Name objs) = {#''a/b'', ''a/c'', ''d''#}"
  shows "map Name (sort_key Name objs) = [''a/b'', ''a/c'', ''d'']"
proof -
  have "mset [''a/b'', ''a/c'', ''d''] = mset (map Name objs)"
    using assms by simp
  moreover have "sorted [''a/b'', ''a/c'', ''d'']" by simp
  ultimately have "sort (map Name objs) = [''a/b'', ''a/c'', ''d'']"
    by (rule properties_for_sort)
  then show ?thesis by (simp only: map_sort_key_eq)
qed

lemma filter_names:
  "map Name (filter (spec_kept pre delimiter) xs) =
     filter (\<lambda>n. prefix pre n \<and> (delimiter = [] \<or> \<not> sublist delimiter (drop (length pre) n)))
       (map Name xs)"
  by (induction xs) (auto simp: spec_kept_def)

lemma ListObjects_example:
  assumes "buckets s bucketName = Some objs"
    and "mset (map Name objs) = {#''a/b'', ''a/c'', ''d''#}"
  shows "map_sum id (map Name) (fst (ListObjects s bucketName ''a/'' ''/'')) = Inr [''a/b'', ''a/c'']"
    and "map_sum id (map Name) (fst (ListObjects s bucketName ''a/'' [])) = Inr [''a/b'', ''a/c'']"
  by (simp_all add: ListObjects_found[OF assms(1)] filter_names names_example[OF assms(2)]
        sublist_Cons_right)

lemmas sample_eval = sample_store_def sample_object_def zero_Object_def

text \<open>
  Claim C1, as the code has it. For an existing bucket, \<open>ListObjects\<close> returns the objects
  whose name has the prefix and whose name without the prefix does not contain the
  delimiter (every such object when the delimiter is empty), each as often as it is
  stored, sorted by name; the error is for a missing bucket only. For a bucket holding
  exactly the names \<open>a/b\<close>, \<open>a/c\<close> and \<open>d\<close>, the prefix \<open>a/\<close> gives \<open>a/b\<close> and \<open>a/c\<close>
  with the delimiter \<open>/\<close> as well as with the empty delimiter: what remains of the
  names, \<open>b\<close> and \<open>c\<close>, contains no \<open>/\<close>.
\<close>

theorem ListObjects_kept:
  assumes "buckets s bucketName = Some objs"
  shows "\<exists>res. fst (ListObjects s bucketName pre delimiter) = Inr res \<and>
           sorted (map Name res) \<and>
           mset res = filter_mset (spec_kept pre delimiter) (mset objs) \<and>
           (mset (map Name objs) = {#''a/b'', ''a/c'', ''d''#} \<and> pre = ''a/'' \<and>
              (delimiter = ''/'' \<or> delimiter = []) \<longrightarrow>
            map Name res = [''a/b'', ''a/c''])"
proof -
  let ?res = "filter (spec_kept pre delimiter) (sort_key Name objs)"
  have r: "fst (ListObjects s bucketName pre delimiter) = Inr ?res"
    by (rule ListObjects_found[OF assms])
  have ex: "map Name ?res = [''a/b'', ''a/c'']"
    if "mset (map Name objs) = {#''a/b'', ''a/c'', ''d''#}" "pre = ''a/''"
       "delimiter = ''/'' \<or> delimiter = []"
    using ListObjects_example[OF assms that(1)] that(2,3)
    by (auto simp: ListObjects_found[OF assms])
  show ?thesis
    using r ex by (intro exI[of _ ?res]) (simp add: sorted_map_filter)
qed

theorem ListObjects_kept_witness:
  "buckets sample_store ''bkt'' =
     Some [sample_object ''bkt'' ''d'' [3], sample_object ''bkt'' ''a/c'' [2],
           sample_object ''bkt'' ''a/b'' [1]] \<and>
   (\<exists>res. fst (ListObjects sample_store ''bkt'' ''a/'' ''/'') = Inr res \<and>
      sorted (map Name res) \<and>
      mset res = filter_mset (spec_kept ''a/'' ''/'')
        (mset [sample_object ''bkt'' ''d'' [3], sample_object ''bkt'' ''a/c'' [2],
               sample_object ''bkt'' ''a/b'' [1]]) \<and>
      (mset (map Name [sample_object ''bkt'' ''d'' [3], sample_object ''bkt'' ''a/c'' [2],
               sample_object ''bkt'' ''a/b'' [1]]) = {#''a/b'', ''a/c'', ''d''#} \<and>
       ''a/'' = ''a/'' \<and> (''/'' = ''/'' \<or> ''/'' = []) \<longrightarrow>
       map Name res = [''a/b'', ''a/c'']))"
proof -
  have h: "buckets sample_store ''bkt'' =
     Some [sample_object ''bkt'' ''d'' [3], sample_object ''bkt'' ''a/c'' [2],
           sample_object ''bkt'' ''a/b'' [1]]"
    by (simp add: sample_store_def)
  show ?thesis
    by (rule conjI[OF h ListObjects_kept[OF h]])
qed

text \<open>
  The specification's example expects the empty list for the prefix \<open>a/\<close> and the
  delimiter \<open>/\<close>; the code returns both objects.
\<close>

theorem ListObjects_example_counterexample:
  "fst (ListObjects sample_store ''bkt'' ''a/'' ''/'') =
     Inr [sample_object ''bkt'' ''a/b'' [1], sample_object ''bkt'' ''a/c'' [2]] \<and>
   fst (ListObjects sample_store ''bkt'' ''a/'' ''/'') \<noteq> Inr []"
  by (simp add: ListObjects_def sample_eval HasPrefix_def Replace1_def Contains_def)

subsection \<open>Creating and finding objects\<close>

lemma findObject_from_absent:
  "id_Object obj \<notin> id_Object ` set objs \<Longrightarrow> findObject_from i objs obj = - 1"
  by (induction objs arbitrary: i) auto

lemma findObject_from_present:
  "id_Object obj \<in> id_Object ` set objs \<Longrightarrow>
   \<exists>k<length objs. findObject_from i objs obj = int (i + k) \<and>
      id_Object (objs ! k) = id_Object obj \<and>
      (\<forall>j<k. id_Object (objs ! j) \<noteq> id_Object obj)"
proof (induction objs arbitrary: i)
  case Nil
  then show ?case by simp
next
  case (Cons ob objs)
  show ?case
  proof (cases "id_Object obj = id_Object ob")
    case True
    then show ?thesis by (intro exI[of _ 0]) simp
  next
    case False
    with Cons.prems have "id_Object obj \<in> id_Object ` set objs" by auto
    from Cons.IH[OF this, of "Suc i"] obtain k where k: "k < length objs"
      "findObject_from (Suc i) objs obj = int (Suc i + k)"
      "id_Object (objs ! k) = id_Object obj"
      "\<forall>j<k. id_Object (objs ! j) \<noteq> id_Object obj" by blast
    show ?thesis
    proof (intro exI[of _ "Suc k"] conjI allI impI)
      show "Suc k < length (ob # objs)" using k(1) by simp
      show "findObject_from i (ob # objs) obj = int (i + Suc k)" using False k(2) by simp
      show "id_Object ((ob # objs) ! Suc k) = id_Object obj" using k(3) by simp
      fix j assume "j < Suc k"
      then show "id_Object ((ob # objs) ! j) \<noteq> id_Object obj"
        using False k(4) by (cases j) auto
    qed
  qed
qed

lemma id_Object_same_bucket:
  "BucketName a = BucketName b \<Longrightarrow> id_Object a = id_Object b \<longleftrightarrow> Name a = Name b"
  by (simp add: id_Object_def)

lemma bucket_objects_upd:
  "bucket_objects (s\<lparr>buckets := (buckets s)(b \<mapsto> objs)\<rparr>) b' =
     (if b' = b then objs else bucket_objects s b')"
  by (simp add: bucket_objects_def)

lemma CreateObject_fresh:
  assumes "owned s" and "Name obj \<notin> Name ` set (bucket_objects s (BucketName obj))"
  shows "CreateObject s obj =
     s\<lparr>buckets := (buckets s)(BucketName obj \<mapsto> bucket_objects s (BucketName obj) @ [obj])\<rparr>"
proof -
  have "id_Object obj \<notin> id_Object ` set (bucket_objects s (BucketName obj))"
  proof
    assume "id_Object obj \<in> id_Object ` set (bucket_objects s (BucketName obj))"
    then obtain ob where ob: "ob \<in> set (bucket_objects s (BucketName obj))"
      "id_Object obj = id_Object ob" by blast
    with assms(1) have "BucketName ob = BucketName obj" by (simp add: owned_def)
    with ob(2) have "Name obj = Name ob" by (simp add: id_Object_same_bucket)
    with ob(1) assms(2) show False by blast
  qed
  then show ?thesis by (simp add: CreateObject_def findObject_def findObject_from_absent)
qed

lemma CreateObject_existing:
  assumes "owned s" and "Name obj \<in> Name ` set (bucket_objects s (BucketName obj))"
  shows "\<exists>k<length (bucket_objects s (BucketName obj)).
     Name (bucket_objects s (BucketName obj) ! k) = Name obj \<and>
     (\<forall>j<k. Name (bucket_objects s (BucketName obj) ! j) \<noteq> Name obj) \<and>
     findObject s obj = int k \<and>
     CreateObject s obj =
       s\<lparr>buckets := (buckets s)(BucketName obj \<mapsto> (bucket_objects s (BucketName obj))[k := obj])\<rparr>"
proof -
  let ?objs = "bucket_objects s (BucketName obj)"
  have same: "\<And>ob. ob \<in> set ?objs \<Longrightarrow> id_Object ob = id_Object obj \<longleftrightarrow> Name ob = Name obj"
    using assms(1) by (simp add: owned_def id_Object_same_bucket)
  from assms(2) obtain ob where ob: "ob \<in> set ?objs" "Name ob = Name obj" by force
  from same[OF ob(1)] ob(2) have "id_Object ob = id_Object obj" by simp
  with ob(1) have "id_Object obj \<in> id_Object ` set ?objs" by (metis imageI)
  from findObject_from_present[OF this, of 0] obtain k where k: "k < length ?objs"
    "findObject_from 0 ?objs obj = int k" "id_Object (?objs ! k) = id_Object obj"
    "\<forall>j<k. id_Object (?objs ! j) \<noteq> id_Object obj" by auto
  show ?thesis
  proof (intro exI[of _ k] conjI allI impI)
    show "k < length ?objs" by (rule k(1))
    show "Name (?objs ! k) = Name obj" using k(1,3) same by simp
    show "findObject s obj = int k" using k(2) by (simp add: findObject_def)
    then show "CreateObject s obj = s\<lparr>buckets := (buckets s)(BucketName obj \<mapsto> ?objs[k := obj])\<rparr>"
      by (simp add: CreateObject_def)
    fix j assume "j < k"
    with k(1,4) same show "Name (?objs ! j) \<noteq> Name obj" by simp
  qed
qed

text \<open>
  The invariant holds in the empty store and is kept by every operation that writes the
  bucket map, so it holds in every state the server reaches from the empty store.
\<close>

lemma owned_empty: "buckets s = Map.empty \<Longrightarrow> owned s"
  by (simp add: owned_def bucket_objects_def)

lemma unique_identity_empty: "buckets s = Map.empty \<Longrightarrow> unique_identity s"
  by (simp add: unique_identity_def bucket_objects_def)

lemma owned_CreateObject:
  assumes "owned s"
  shows "owned (CreateObject s obj)"
  unfolding owned_def
proof (intro allI ballI)
  let ?B = "BucketName obj"
  let ?objs = "bucket_objects s ?B"
  fix b ob assume ob: "ob \<in> set (bucket_objects (CreateObject s obj) b)"
  show "BucketName ob = b"
  proof (cases "Name obj \<in> Name ` set ?objs")
    case True
    from CreateObject_existing[OF assms True] obtain k where
      "CreateObject s obj = s\<lparr>buckets := (buckets s)(?B \<mapsto> ?objs[k := obj])\<rparr>" by blast
    with ob have "ob \<in> set (if b = ?B then ?objs[k := obj] else bucket_objects s b)"
      by (simp add: bucket_objects_upd)
    then have "ob = obj \<and> b = ?B \<or> ob \<in> set (bucket_objects s b)"
      by (auto split: if_splits dest: set_update_subset_insert[THEN subsetD])
    with assms show ?thesis by (auto simp: owned_def)
  next
    case False
    from CreateObject_fresh[OF assms False] ob
    have "ob \<in> set (if b = ?B then ?objs @ [obj] else bucket_objects s b)"
      by (simp add: bucket_objects_upd)
    with assms show ?thesis by (auto simp: owned_def split: if_splits)
  qed
qed

lemma owned_ListObjects:
  assumes "owned s"
  shows "owned (snd (ListObjects s bucketName pre delimiter))"
proof (cases "buckets s bucketName")
  case None
  with assms show ?thesis by (simp add: ListObjects_def)
next
  case (Some objs)
  then have "set (bucket_objects (snd (ListObjects s bucketName pre delimiter)) b) =
             set (bucket_objects s b)" for b
    by (simp add: ListObjects_def Let_def bucket_objects_def)
  with assms show ?thesis by (simp add: owned_def)
qed

lemma owned_uploads: "owned (s\<lparr>uploads := u\<rparr>) = owned s"
  by (simp add: owned_def bucket_objects_def)

lemma unique_identity_names:
  assumes "owned s"
  shows "unique_identity s \<longleftrightarrow> (\<forall>b. distinct (map Name (bucket_objects s b)))"
proof -
  have "distinct (map (\<lambda>ob. (BucketName ob, Name ob)) (bucket_objects s b)) \<longleftrightarrow>
        distinct (map Name (bucket_objects s b))" for b
  proof -
    have "map (\<lambda>ob. (BucketName ob, Name ob)) (bucket_objects s b) =
          map (Pair b) (map Name (bucket_objects s b))"
      using assms by (simp add: owned_def)
    then show ?thesis by (simp add: distinct_map inj_on_def del: map_map)
  qed
  then show ?thesis by (simp add: unique_identity_def)
qed

lemma distinct_key_nth:
  assumes "distinct (map f xs)" and "x \<in> set xs" and "k < length xs" and "f (xs ! k) = f x"
  shows "xs ! k = x"
  using assms by (metis distinct_map inj_on_def nth_mem)

lemma distinct_key_filter:
  assumes "distinct (map f xs)" and "x \<in> set xs"
  shows "filter (\<lambda>y. f y = f x) xs = [x]"
  using assms
proof (induction xs)
  case Nil
  then show ?case by simp
next
  case (Cons a xs)
  show ?case
  proof (cases "a = x")
    case True
    with Cons.prems(1) have "f x \<notin> f ` set xs" by simp
    then have "\<forall>y \<in> set xs. f y \<noteq> f x" by (metis imageI)
    then have "filter (\<lambda>y. f y = f x) xs = []" by (simp add: filter_empty_conv)
    with True show ?thesis by simp
  next
    case False
    with Cons.prems have "x \<in> set xs" "f a \<noteq> f x" "distinct (map f xs)" by auto
    with Cons.IH show ?thesis by simp
  qed
qed

lemma GetObject_stored:
  assumes "owned t" and "unique_identity t" and "ob \<in> set (bucket_objects t b)"
  shows "GetObject t b (Name ob) = Inr ob"
proof -
  let ?probe = "zero_Object\<lparr>BucketName := b, Name := Name ob\<rparr>"
  let ?objs = "bucket_objects t b"
  have bn: "BucketName ob = b" using assms(1,3) by (simp add: owned_def)
  have pb: "BucketName ?probe = b" "Name ?probe = Name ob" by simp_all
  have "id_Object ob = id_Object ?probe" using bn by (simp add: id_Object_def)
  with assms(3) have "id_Object ?probe \<in> id_Object ` set ?objs" by (metis imageI)
  from findObject_from_present[OF this, of 0] obtain k where k: "k < length ?objs"
    "findObject_from 0 ?objs ?probe = int k" "id_Object (?objs ! k) = id_Object ?probe" by auto
  have "BucketName (?objs ! k) = b" using assms(1) k(1) by (simp add: owned_def)
  with k(3) have "Name (?objs ! k) = Name ob" by (simp add: id_Object_def)
  moreover have "distinct (map Name ?objs)"
    using assms(1,2) by (simp add: unique_identity_names)
  ultimately have "?objs ! k = ob" using assms(3) k(1) by (metis distinct_key_nth)
  with k(2) show ?thesis by (simp add: GetObject_def findObject_def Let_def)
qed

lemma CreateObject_step:
  assumes o: "owned s" and u: "unique_identity s"
  shows "owned (CreateObject s obj)"
    and "unique_identity (CreateObject s obj)"
    and "obj \<in> set (bucket_objects (CreateObject s obj) (BucketName obj))"
    and "\<forall>b. b \<noteq> BucketName obj \<longrightarrow> buckets (CreateObject s obj) b = buckets s b"
    and "uploads (CreateObject s obj) = uploads s"
    and "Name obj \<in> Name ` set (bucket_objects s (BucketName obj)) \<Longrightarrow>
         \<exists>k<length (bucket_objects s (BucketName obj)).
           Name (bucket_objects s (BucketName obj) ! k) = Name obj \<and>
           bucket_objects (CreateObject s obj) (BucketName obj) =
             (bucket_objects s (BucketName obj))[k := obj]"
    and "Name obj \<notin> Name ` set (bucket_objects s (BucketName obj)) \<Longrightarrow>
         bucket_objects (CreateObject s obj) (BucketName obj) =
           bucket_objects s (BucketName obj) @ [obj]"
proof -
  let ?B = "BucketName obj"
  let ?objs = "bucket_objects s ?B"
  let ?s' = "CreateObject s obj"
  have d: "\<And>b. distinct (map Name (bucket_objects s b))"
    using o u by (simp add: unique_identity_names)
  have shape: "(\<exists>k<length ?objs. Name (?objs ! k) = Name obj \<and>
                  Name obj \<in> Name ` set ?objs \<and>
                  ?s' = s\<lparr>buckets := (buckets s)(?B \<mapsto> ?objs[k := obj])\<rparr>)
               \<or> (Name obj \<notin> Name ` set ?objs \<and>
                  ?s' = s\<lparr>buckets := (buckets s)(?B \<mapsto> ?objs @ [obj])\<rparr>)"
    using CreateObject_existing[OF o, of obj] CreateObject_fresh[OF o, of obj] by blast
  show "Name obj \<notin> Name ` set ?objs \<Longrightarrow> bucket_objects ?s' ?B = ?objs @ [obj]"
    using shape by (auto simp: bucket_objects_upd)
  show "Name obj \<in> Name ` set ?objs \<Longrightarrow>
         \<exists>k<length ?objs. Name (?objs ! k) = Name obj \<and> bucket_objects ?s' ?B = ?objs[k := obj]"
    using shape by (auto simp: bucket_objects_upd)
  show "\<forall>b. b \<noteq> ?B \<longrightarrow> buckets ?s' b = buckets s b"
    using shape by auto
  show "uploads ?s' = uploads s"
    using shape by auto
  show "obj \<in> set (bucket_objects ?s' ?B)"
    using shape by (auto simp: bucket_objects_upd set_update_memI)
  show "owned ?s'"
    unfolding owned_def
  proof (intro allI ballI)
    fix b ob assume ob: "ob \<in> set (bucket_objects ?s' b)"
    from shape show "BucketName ob = b"
    proof (elim disjE exE conjE)
      fix k assume "?s' = s\<lparr>buckets := (buckets s)(?B \<mapsto> ?objs[k := obj])\<rparr>"
      with ob have "ob \<in> set (if b = ?B then ?objs[k := obj] else bucket_objects s b)"
        by (simp add: bucket_objects_upd)
      then have "ob = obj \<and> b = ?B \<or> ob \<in> set (bucket_objects s b)"
        by (auto split: if_splits dest: set_update_subset_insert[THEN subsetD])
      with o show ?thesis by (auto simp: owned_def)
    next
      assume "?s' = s\<lparr>buckets := (buckets s)(?B \<mapsto> ?objs @ [obj])\<rparr>"
      with ob have "ob \<in> set (if b = ?B then ?objs @ [obj] else bucket_objects s b)"
        by (simp add: bucket_objects_upd)
      with o show ?thesis by (auto simp: owned_def split: if_splits)
    qed
  qed
  then have "unique_identity ?s' \<longleftrightarrow> (\<forall>b. distinct (map Name (bucket_objects ?s' b)))"
    by (rule unique_identity_names)
  moreover have "distinct (map Name (bucket_objects ?s' b))" for b
    using shape
  proof (elim disjE exE conjE)
    fix k assume k: "k < length ?objs" "Name (?objs ! k) = Name obj"
      and s': "?s' = s\<lparr>buckets := (buckets s)(?B \<mapsto> ?objs[k := obj])\<rparr>"
    have "map Name (?objs[k := obj]) = (map Name ?objs)[k := Name (?objs ! k)]"
      using k by (simp add: map_update)
    also have "\<dots> = map Name ?objs" using k(1) by (simp add: list_update_same_conv)
    finally show ?thesis using s' d by (simp add: bucket_objects_upd)
  next
    assume "Name obj \<notin> Name ` set ?objs"
      and "?s' = s\<lparr>buckets := (buckets s)(?B \<mapsto> ?objs @ [obj])\<rparr>"
    then show ?thesis using d by (simp add: bucket_objects_upd)
  qed
  ultimately show "unique_identity ?s'" by blast
qed

lemma CreateObject_mem: "obj \<in> set (bucket_objects (CreateObject s obj) (BucketName obj))"
proof (cases "id_Object obj \<in> id_Object ` set (bucket_objects s (BucketName obj))")
  case False
  then show ?thesis
    by (simp add: CreateObject_def findObject_def findObject_from_absent bucket_objects_upd)
next
  case True
  from findObject_from_present[OF this, of 0] obtain k where
    "k < length (bucket_objects s (BucketName obj))"
    "findObject_from 0 (bucket_objects s (BucketName obj)) obj = int k" by auto
  then show ?thesis
    by (simp add: CreateObject_def findObject_def bucket_objects_upd set_update_memI)
qed

lemma CreateObject_uploads: "uploads (CreateObject s obj) = uploads s"
  by (simp add: CreateObject_def Let_def)

lemma GetObject_fails_iff:
  "isl (GetObject s b n) \<longleftrightarrow> b @ ''/'' @ n \<notin> id_Object ` set (bucket_objects s b)"
proof (cases "b @ ''/'' @ n \<in> id_Object ` set (bucket_objects s b)")
  case False
  then have "findObject_from 0 (bucket_objects s b) (zero_Object\<lparr>BucketName := b, Name := n\<rparr>) = - 1"
    by (intro findObject_from_absent) (simp add: id_Object_def)
  with False show ?thesis by (simp add: GetObject_def findObject_def)
next
  case True
  then have "id_Object (zero_Object\<lparr>BucketName := b, Name := n\<rparr>) \<in> id_Object ` set (bucket_objects s b)"
    by (simp add: id_Object_def)
  from findObject_from_present[OF this, of 0] obtain k where
    "findObject_from 0 (bucket_objects s b) (zero_Object\<lparr>BucketName := b, Name := n\<rparr>) = int k"
    by auto
  with True show ?thesis by (simp add: GetObject_def findObject_def)
qed

lemma GetObject_fails_owned:
  assumes "owned s"
  shows "isl (GetObject s b n) \<longleftrightarrow> n \<notin> Name ` set (bucket_objects s b)"
proof -
  have "b @ ''/'' @ n \<in> id_Object ` set (bucket_objects s b) \<longleftrightarrow> n \<in> Name ` set (bucket_objects s b)"
    using assms by (force simp: owned_def id_Object_def image_iff)
  then show ?thesis by (simp add: GetObject_fails_iff)
qed


lemma owned_sample_store: "owned sample_store"
  by (auto simp: owned_def bucket_objects_def sample_eval split: if_splits)

lemma unique_identity_sample_store: "unique_identity sample_store"
  by (auto simp: unique_identity_def bucket_objects_def sample_eval)

text \<open>
  Claim C9. In a store whose objects lie in their own buckets and whose identities are
  unique, \<open>CreateObject\<close> keeps both properties; an object whose identity is stored
  already replaces the stored one at its index, so the length of the bucket's list is
  unchanged, and a new identity is appended; other buckets are untouched; \<open>GetObject\<close>
  then returns the created object; and after creating the same identity a second time
  the bucket holds exactly one object of that name, the second one, with the count
  unchanged.
\<close>

theorem CreateObject_upsert:
  assumes "owned s" and "unique_identity s"
  shows "owned (CreateObject s obj) \<and> unique_identity (CreateObject s obj) \<and>
     (if \<exists>ob \<in> set (bucket_objects s (BucketName obj)). Name ob = Name obj
      then (\<exists>k < length (bucket_objects s (BucketName obj)).
              Name (bucket_objects s (BucketName obj) ! k) = Name obj \<and>
              bucket_objects (CreateObject s obj) (BucketName obj) =
                (bucket_objects s (BucketName obj))[k := obj]) \<and>
           length (bucket_objects (CreateObject s obj) (BucketName obj)) =
             length (bucket_objects s (BucketName obj))
      else bucket_objects (CreateObject s obj) (BucketName obj) =
             bucket_objects s (BucketName obj) @ [obj]) \<and>
     (\<forall>b. b \<noteq> BucketName obj \<longrightarrow> buckets (CreateObject s obj) b = buckets s b) \<and>
     GetObject (CreateObject s obj) (BucketName obj) (Name obj) = Inr obj \<and>
     (\<forall>obj2. BucketName obj2 = BucketName obj \<and> Name obj2 = Name obj \<longrightarrow>
        filter (\<lambda>ob. Name ob = Name obj)
          (bucket_objects (CreateObject (CreateObject s obj) obj2) (BucketName obj)) = [obj2] \<and>
        length (bucket_objects (CreateObject (CreateObject s obj) obj2) (BucketName obj)) =
          length (bucket_objects (CreateObject s obj) (BucketName obj)))"
proof -
  let ?B = "BucketName obj"
  let ?s' = "CreateObject s obj"
  note st = CreateObject_step[OF assms, of obj]
  have o': "owned ?s'" and u': "unique_identity ?s'" by (rule st(1), rule st(2))
  have shape: "if \<exists>ob \<in> set (bucket_objects s ?B). Name ob = Name obj
      then (\<exists>k < length (bucket_objects s ?B).
              Name (bucket_objects s ?B ! k) = Name obj \<and>
              bucket_objects ?s' ?B = (bucket_objects s ?B)[k := obj]) \<and>
           length (bucket_objects ?s' ?B) = length (bucket_objects s ?B)
      else bucket_objects ?s' ?B = bucket_objects s ?B @ [obj]"
  proof (cases "Name obj \<in> Name ` set (bucket_objects s ?B)")
    case True
    from st(6)[OF True] obtain k where k: "k < length (bucket_objects s ?B)"
      "Name (bucket_objects s ?B ! k) = Name obj"
      "bucket_objects ?s' ?B = (bucket_objects s ?B)[k := obj]" by blast
    have "\<exists>ob \<in> set (bucket_objects s ?B). Name ob = Name obj"
      using True by (metis imageE)
    moreover have "length (bucket_objects ?s' ?B) = length (bucket_objects s ?B)"
      using k(3) by simp
    ultimately show ?thesis using k by auto
  next
    case False
    then have "\<not> (\<exists>ob \<in> set (bucket_objects s ?B). Name ob = Name obj)"
      by (metis imageI)
    with st(7)[OF False] show ?thesis by simp
  qed
  have get: "GetObject ?s' ?B (Name obj) = Inr obj"
    by (rule GetObject_stored[OF o' u' st(3)])
  have twice: "filter (\<lambda>ob. Name ob = Name obj)
          (bucket_objects (CreateObject ?s' obj2) ?B) = [obj2] \<and>
        length (bucket_objects (CreateObject ?s' obj2) ?B) = length (bucket_objects ?s' ?B)"
    if eq: "BucketName obj2 = ?B" "Name obj2 = Name obj" for obj2
  proof -
    note st2 = CreateObject_step[OF o' u', of obj2]
    have "Name obj2 \<in> Name ` set (bucket_objects ?s' (BucketName obj2))"
      using st(3) eq by (metis imageI)
    from st2(6)[OF this] have len: "length (bucket_objects (CreateObject ?s' obj2) ?B) =
        length (bucket_objects ?s' ?B)" using eq by auto
    have "distinct (map Name (bucket_objects (CreateObject ?s' obj2) ?B))"
      using st2(1,2) by (simp add: unique_identity_names)
    from distinct_key_filter[OF this, of obj2] st2(3) eq len show ?thesis by simp
  qed
  from o' u' shape st(4) get twice show ?thesis by blast
qed

theorem CreateObject_upsert_witness:
  "owned sample_store \<and> unique_identity sample_store \<and>
   GetObject (CreateObject sample_store (sample_object ''bkt'' ''d'' [9])) ''bkt'' ''d'' =
     Inr (sample_object ''bkt'' ''d'' [9]) \<and>
   length (bucket_objects (CreateObject sample_store (sample_object ''bkt'' ''d'' [9])) ''bkt'') = 3"
proof -
  have n: "BucketName (sample_object ''bkt'' ''d'' [9]) = ''bkt''"
    "Name (sample_object ''bkt'' ''d'' [9]) = ''d''"
    by (simp_all add: sample_object_def)
  have ex: "\<exists>ob \<in> set (bucket_objects sample_store ''bkt''). Name ob = ''d''"
    by (simp add: bucket_objects_def sample_eval)
  have len: "length (bucket_objects sample_store ''bkt'') = 3"
    by (simp add: bucket_objects_def sample_store_def)
  from CreateObject_upsert[OF owned_sample_store unique_identity_sample_store,
      of "sample_object ''bkt'' ''d'' [9]"]
  show ?thesis
    using owned_sample_store unique_identity_sample_store ex len by (simp add: n)
qed

section \<open>The upload handlers\<close>

lemmas request_eval =
  sample_request_def sample_chunk_def sample_body_def sample_initiate_def
  sample_multipart_empty_def sample_session_def sample_uploadID_def sample_raw_def
  zero_multipartMetadata_def

lemmas handler_eval =
  uploadFileContent_def rangeDecision_def chunkObject_def finalizeHeader_def createObject_def
  loadContent_def index_map_def Get_def Set_def zero_jsonResponse_def
  StatusOK_def StatusPermanentRedirect_def StatusBadRequest_def StatusNotFound_def
  contentTypeHeader_def Let_def

lemma sample_uploadID_hex: "Sprintf_x sample_raw = sample_uploadID"
  by (simp add: Sprintf_x_def digit_chars_def sample_raw_def sample_uploadID_def)

subsection \<open>The cases of \<open>uploadFileContent\<close>\<close>

lemma uploadFileContent_no_session:
  assumes "uploads s (index_map (Vars r) ''uploadId'') = None"
  shows "uploadFileContent lib s r = (zero_jsonResponse\<lparr>status := StatusNotFound\<rparr>, s)"
  using assms by (simp add: uploadFileContent_def)

lemma uploadFileContent_read_error:
  assumes "uploads s (index_map (Vars r) ''uploadId'') = Some rawObj"
    and "loadContent (Body r) = (content, Some err)"
  shows "uploadFileContent lib s r = (zero_jsonResponse\<lparr>errorMessage := Error err\<rparr>, s)"
  using assms by (simp add: uploadFileContent_def)

lemma uploadFileContent_bad_range:
  assumes "uploads s (index_map (Vars r) ''uploadId'') = Some rawObj"
    and "loadContent (Body r) = (content, None)"
    and "rangeDecision r (chunkObject lib rawObj content r) = Inl err"
  shows "uploadFileContent lib s r =
           (zero_jsonResponse\<lparr>errorMessage := err, status := StatusBadRequest\<rparr>, s)"
  using assms by (simp add: uploadFileContent_def)

lemma uploadFileContent_commit:
  assumes "uploads s (index_map (Vars r) ''uploadId'') = Some rawObj"
    and "loadContent (Body r) = (content, None)"
    and "rangeDecision r (chunkObject lib rawObj content r) = Inr (h, True)"
  shows "uploadFileContent lib s r =
           (\<lparr>status = StatusOK, header = finalizeHeader r h,
             data = Some (chunkObject lib rawObj content r), errorMessage = []\<rparr>,
            CreateObject (s\<lparr>uploads := (uploads s)(index_map (Vars r) ''uploadId'' := None)\<rparr>)
              (chunkObject lib rawObj content r))"
  using assms by (simp add: uploadFileContent_def createObject_def Let_def)

lemma uploadFileContent_continue:
  assumes "uploads s (index_map (Vars r) ''uploadId'') = Some rawObj"
    and "loadContent (Body r) = (content, None)"
    and "rangeDecision r (chunkObject lib rawObj content r) = Inr (h, False)"
  shows "uploadFileContent lib s r =
           (\<lparr>status = (if Header r ''X-Guploader-No-308'' \<noteq> None then StatusOK
                       else StatusPermanentRedirect),
             header = finalizeHeader r
               (if Header r ''X-Guploader-No-308'' \<noteq> None
                then Set h ''X-Http-Status-Code-Override'' ''308'' else h),
             data = Some (chunkObject lib rawObj content r), errorMessage = []\<rparr>,
            s\<lparr>uploads := (uploads s)(index_map (Vars r) ''uploadId'' \<mapsto>
                  chunkObject lib rawObj content r)\<rparr>)"
  using assms by (simp add: uploadFileContent_def Let_def Let_def)

lemma rangeDecision_bad:
  assumes "Get (Header r) ''Content-Range'' \<noteq> []"
    and "parseContentRange (Get (Header r) ''Content-Range'') = Inl err"
  shows "rangeDecision r obj = Inl err"
  using assms by (simp add: rangeDecision_def)

lemma rangeDecision_known:
  assumes "Get (Header r) ''Content-Range'' \<noteq> []"
    and "parseContentRange (Get (Header r) ''Content-Range'') = Inr parsed"
    and "KnownRange parsed"
  shows "rangeDecision r obj =
     Inr (Set Map.empty ''Range'' (''bytes=0-'' @ Sprintf_d (End parsed)),
          KnownTotal parsed \<and> Total parsed \<le> wrap_int (End parsed + 1))"
  using assms by (simp add: rangeDecision_def)

lemma rangeDecision_cases:
  "rangeDecision r obj = Inl err \<Longrightarrow>
     Get (Header r) ''Content-Range'' \<noteq> [] \<and>
     parseContentRange (Get (Header r) ''Content-Range'') = Inl err"
  by (auto simp: rangeDecision_def Let_def split: if_splits sum.splits)

lemma parse_chunk_ranges:
  "parseContentRange ''bytes 0-999/2600'' =
     Inr \<lparr>KnownRange = True, KnownTotal = True, Start = 0, End = 999, Total = 2600\<rparr>"
  "parseContentRange ''bytes 1000-1999/2600'' =
     Inr \<lparr>KnownRange = True, KnownTotal = True, Start = 1000, End = 1999, Total = 2600\<rparr>"
  "parseContentRange ''bytes 2000-2599/2600'' =
     Inr \<lparr>KnownRange = True, KnownTotal = True, Start = 2000, End = 2599, Total = 2600\<rparr>"
  by (simp_all add: parse_eval)

lemma Get_single: "h key = Some [v] \<Longrightarrow> Get h key = v"
  by (simp add: Get_def)

lemma rangeDecision_chunks:
  "Header r ''Content-Range'' = Some [''bytes 0-999/2600''] \<Longrightarrow>
     snd (projr (rangeDecision r obj)) = False \<and> \<not> isl (rangeDecision r obj)"
  "Header r ''Content-Range'' = Some [''bytes 1000-1999/2600''] \<Longrightarrow>
     snd (projr (rangeDecision r obj)) = False \<and> \<not> isl (rangeDecision r obj)"
  "Header r ''Content-Range'' = Some [''bytes 2000-2599/2600''] \<Longrightarrow>
     snd (projr (rangeDecision r obj)) = True \<and> \<not> isl (rangeDecision r obj)"
  by (simp_all add: rangeDecision_def Get_single parse_chunk_ranges wrap_int_def)

lemma resumableUpload_ok:
  assumes "loadMetadata (Body r) = (metadata, None)"
  shows "resumableUpload lib s bucketName r (Inr raw) =
     (zero_jsonResponse
        \<lparr>data := Some (zero_Object
            \<lparr>BucketName := bucketName,
             Name := (if Get (Query r) ''name'' = [] then mm_Name metadata
                      else Get (Query r) ''name''),
             ContentEncoding := Get (Query r) ''contentEncoding'',
             ACL := getObjectACL (Get (Query r) ''predefinedAcl''),
             Metadata := mm_Metadata metadata\<rparr>),
         header :=
           (if Get (Header r) ''X-Goog-Upload-Command'' = ''start'' then
              Set (Set (Set Map.empty ''Location'' (URL s @ ''/upload/resumable/'' @ Sprintf_x raw))
                     ''X-Goog-Upload-URL'' (URL s @ ''/upload/resumable/'' @ Sprintf_x raw))
                ''X-Goog-Upload-Status'' ''active''
            else Set Map.empty ''Location'' (URL s @ ''/upload/resumable/'' @ Sprintf_x raw))\<rparr>,
      s\<lparr>uploads := (uploads s)(Sprintf_x raw \<mapsto> zero_Object
            \<lparr>BucketName := bucketName,
             Name := (if Get (Query r) ''name'' = [] then mm_Name metadata
                      else Get (Query r) ''name''),
             ContentEncoding := Get (Query r) ''contentEncoding'',
             ACL := getObjectACL (Get (Query r) ''predefinedAcl''),
             Metadata := mm_Metadata metadata\<rparr>)\<rparr>)"
  using assms by (simp add: resumableUpload_def generateUploadID_def Let_def)

lemma index_map_Some: "m key = Some v \<Longrightarrow> index_map m key = v"
  by (simp add: index_map_def)

lemma rangeDecision_Inr:
  assumes "\<not> isl (rangeDecision r obj)" and "snd (projr (rangeDecision r obj)) = c"
  obtains h where "rangeDecision r obj = Inr (h, c)"
  using assms by (cases "rangeDecision r obj") auto

lemma chunkObject_fields:
  "Content (chunkObject lib rawObj content r) = Content rawObj @ content"
  "Crc32c (chunkObject lib rawObj content r) = encodedCrc32cChecksum lib (Content rawObj @ content)"
  "Md5Hash (chunkObject lib rawObj content r) = encodedMd5Hash lib (Content rawObj @ content)"
  "ContentType (chunkObject lib rawObj content r) = Get (Header r) contentTypeHeader"
  "BucketName (chunkObject lib rawObj content r) = BucketName rawObj"
  "Name (chunkObject lib rawObj content r) = Name rawObj"
  "ContentEncoding (chunkObject lib rawObj content r) = ContentEncoding rawObj"
  "ACL (chunkObject lib rawObj content r) = ACL rawObj"
  "Metadata (chunkObject lib rawObj content r) = Metadata rawObj"
  by (simp_all add: chunkObject_def)

lemma CreateObject_buckets_uploads:
  "bucket_objects (s\<lparr>uploads := u\<rparr>) b = bucket_objects s b"
  by (simp add: bucket_objects_def)

lemma parseContentRange_error: "parseContentRange r = Inl e \<Longrightarrow> e = invalidErr r"
  by (auto simp: parseContentRange_def processRange_def processTotal_def Let_def
           split: if_splits sum.splits option.splits)

lemma rangeDecision_header:
  assumes "rangeDecision r obj = Inr (h, c)"
  shows "h key = None \<or> key = ''Range''"
  using assms
  by (auto simp: rangeDecision_def Let_def Set_def split: if_splits sum.splits)

lemma processRange_End:
  assumes "processRange r rg z = Inr p" and "KnownRange p" and "\<not> KnownRange z"
  shows "int_min \<le> End p \<and> End p \<le> int_max"
  using assms
  by (auto simp: processRange_def Let_def split: if_splits option.splits dest: Atoi_range)

lemma parseContentRange_End:
  assumes "parseContentRange r = Inr p" and "KnownRange p"
  shows "int_min \<le> End p \<and> End p \<le> int_max"
proof -
  from assms(1) obtain q part0 part1 where
    q: "processRange r part0 zero_contentRange = Inr q" and
    p: "processTotal r part1 q = Inr p"
    by (auto simp: parseContentRange_def Let_def split: if_splits sum.splits)
  from p have e: "End p = End q" "KnownRange p = KnownRange q"
    by (auto simp: processTotal_def split: if_splits option.splits)
  with assms(2) processRange_End[OF q] show ?thesis
    by (simp add: zero_contentRange_def)
qed

lemma wrap_int_succ:
  assumes "int_min \<le> e" and "e < int_max"
  shows "wrap_int (e + 1) = e + 1"
  using assms by (simp add: wrap_int_def int_min_def int_max_def)

lemma commit_rule:
  assumes "Get (Header r) ''Content-Range'' \<noteq> []"
    and "parseContentRange (Get (Header r) ''Content-Range'') = Inr p"
    and "KnownRange p"
  shows "\<exists>h. rangeDecision r obj =
            Inr (h, KnownTotal p \<and> Total p \<le> wrap_int (End p + 1))"
    and "End p < int_max \<Longrightarrow> wrap_int (End p + 1) = End p + 1"
  using rangeDecision_known[OF assms] parseContentRange_End[OF assms(2,3)]
  by (simp_all add: wrap_int_succ)

subsection \<open>Preconditions\<close>

text \<open>
  Claim C8. In a store whose objects lie in their own buckets, the precondition check
  answers, in this order: with \<open>ifGenerationMatch\<close> equal to \<open>0\<close>, PreconditionFailed (412)
  when an object of that name is in the bucket and no response (the upload proceeds)
  when none is; otherwise NotImplemented (501) when \<open>ifGenerationMatch\<close> or
  \<open>ifGenerationNotMatch\<close> is not empty; otherwise no response.
\<close>

theorem checkUploadPreconditions_status:
  assumes "owned s"
  shows "map_option status (checkUploadPreconditions s r bucketName objectName) =
     (if Get (Query r) ''ifGenerationMatch'' = ''0'' then
        (if \<exists>ob \<in> set (bucket_objects s bucketName). Name ob = objectName
         then Some StatusPreconditionFailed else None)
      else if Get (Query r) ''ifGenerationMatch'' \<noteq> [] \<or>
              Get (Query r) ''ifGenerationNotMatch'' \<noteq> []
        then Some StatusNotImplemented
      else None)"
proof -
  have "isl (backend_GetObject s bucketName objectName) \<longleftrightarrow>
        \<not> (\<exists>ob \<in> set (bucket_objects s bucketName). Name ob = objectName)"
    using GetObject_fails_owned[OF assms, of bucketName objectName]
    by (auto simp: backend_GetObject_def)
  then show ?thesis
    by (cases "backend_GetObject s bucketName objectName")
       (auto simp: checkUploadPreconditions_def Let_def zero_jsonResponse_def)
qed

theorem checkUploadPreconditions_status_witness:
  "owned sample_store \<and>
   map_option status
     (checkUploadPreconditions sample_store
        (sample_request\<lparr>Query := [''ifGenerationMatch'' \<mapsto> [''0'']]\<rparr>) ''bkt'' ''d'') =
     Some 412 \<and>
   map_option status
     (checkUploadPreconditions sample_store
        (sample_request\<lparr>Query := [''ifGenerationMatch'' \<mapsto> [''0'']]\<rparr>) ''bkt'' ''e'') =
     None"
proof -
  let ?r = "sample_request\<lparr>Query := [''ifGenerationMatch'' \<mapsto> [''0'']]\<rparr>"
  have d: "\<exists>ob \<in> set (bucket_objects sample_store ''bkt''). Name ob = ''d''"
    and e: "\<not> (\<exists>ob \<in> set (bucket_objects sample_store ''bkt''). Name ob = ''e'')"
    by (simp_all add: bucket_objects_def sample_eval)
  show ?thesis
    using checkUploadPreconditions_status[OF owned_sample_store, of ?r "''bkt''" "''d''"]
      checkUploadPreconditions_status[OF owned_sample_store, of ?r "''bkt''" "''e''"]
      owned_sample_store d e
    by (simp add: Get_def StatusPreconditionFailed_def)
qed

subsection \<open>Appending a chunk\<close>

lemma rangeDecision_empty:
  "Get (Header r) ''Content-Range'' = [] \<Longrightarrow> rangeDecision r obj = Inr (Map.empty, True)"
  by (simp add: rangeDecision_def)

lemma parseContentRange_empty: "isl (parseContentRange [])"
  by (simp add: parseContentRange_def HasPrefix_def bytesPrefix_def)

text \<open>
  Claim C5, as the code has it. For a chunk request on an existing session whose
  Content-Range value does not parse: when reading the body fails, the response is the
  read error with no status set, and the server state is unchanged, since the body is
  read before the header is looked at. When the value is not empty, the server state is
  unchanged, the session with it, and, the body having been read, the response is
  BadRequest with the message of the parser. When the value is empty (an empty header is
  present, or none), the parser is not called and the chunk commits: the body having
  been read, the session is removed and the partial object with the chunk appended is
  stored, with status 200.
\<close>

theorem bad_range_keeps_session:
  assumes "uploads s (index_map (Vars r) ''uploadId'') = Some rawObj"
    and "isl (parseContentRange (Get (Header r) ''Content-Range''))"
  shows "(\<forall>err. snd (loadContent (Body r)) = Some err \<longrightarrow>
            uploadFileContent lib s r = (zero_jsonResponse\<lparr>errorMessage := Error err\<rparr>, s)) \<and>
         (Get (Header r) ''Content-Range'' \<noteq> [] \<longrightarrow>
            snd (uploadFileContent lib s r) = s \<and>
            (snd (loadContent (Body r)) = None \<longrightarrow>
               fst (uploadFileContent lib s r) =
                 zero_jsonResponse
                   \<lparr>errorMessage := ''invalid Content-Range: '' @ Get (Header r) ''Content-Range'',
                    status := StatusBadRequest\<rparr>)) \<and>
         (Get (Header r) ''Content-Range'' = [] \<longrightarrow>
            (\<forall>content. loadContent (Body r) = (content, None) \<longrightarrow>
               uploadFileContent lib s r =
                 (\<lparr>status = StatusOK, header = finalizeHeader r Map.empty,
                   data = Some (chunkObject lib rawObj content r), errorMessage = []\<rparr>,
                  CreateObject
                    (s\<lparr>uploads := (uploads s)(index_map (Vars r) ''uploadId'' := None)\<rparr>)
                    (chunkObject lib rawObj content r)) \<and>
               uploads (snd (uploadFileContent lib s r)) (index_map (Vars r) ''uploadId'') = None \<and>
               chunkObject lib rawObj content r
                 \<in> set (bucket_objects (snd (uploadFileContent lib s r)) (BucketName rawObj))))"
proof (intro conjI allI impI)
  fix err assume "snd (loadContent (Body r)) = Some err"
  then obtain content where "loadContent (Body r) = (content, Some err)"
    by (cases "loadContent (Body r)") auto
  from uploadFileContent_read_error[OF assms(1) this]
  show "uploadFileContent lib s r = (zero_jsonResponse\<lparr>errorMessage := Error err\<rparr>, s)" .
next
  assume ne: "Get (Header r) ''Content-Range'' \<noteq> []"
  obtain content e where lc: "loadContent (Body r) = (content, e)"
    by (cases "loadContent (Body r)")
  show "snd (uploadFileContent lib s r) = s"
  proof (cases e)
    case (Some err)
    with lc uploadFileContent_read_error[OF assms(1), of content err lib] show ?thesis by simp
  next
    case None
    from assms(2) obtain msg where
      msg: "parseContentRange (Get (Header r) ''Content-Range'') = Inl msg"
      by (cases "parseContentRange (Get (Header r) ''Content-Range'')") auto
    have "rangeDecision r (chunkObject lib rawObj content r) = Inl msg"
      by (rule rangeDecision_bad[OF ne msg])
    from uploadFileContent_bad_range[OF assms(1) lc[unfolded None] this] show ?thesis by simp
  qed
next
  assume ne: "Get (Header r) ''Content-Range'' \<noteq> []"
    and ok: "snd (loadContent (Body r)) = None"
  then obtain content where lc: "loadContent (Body r) = (content, None)"
    by (cases "loadContent (Body r)") auto
  from assms(2) obtain msg where
    msg: "parseContentRange (Get (Header r) ''Content-Range'') = Inl msg"
    by (cases "parseContentRange (Get (Header r) ''Content-Range'')") auto
  then have m: "msg = ''invalid Content-Range: '' @ Get (Header r) ''Content-Range''"
    by (auto dest: parseContentRange_error simp: invalidErr_def)
  have "rangeDecision r (chunkObject lib rawObj content r) = Inl msg"
    by (rule rangeDecision_bad[OF ne msg])
  from uploadFileContent_bad_range[OF assms(1) lc this] m
  show "fst (uploadFileContent lib s r) =
          zero_jsonResponse
            \<lparr>errorMessage := ''invalid Content-Range: '' @ Get (Header r) ''Content-Range'',
             status := StatusBadRequest\<rparr>"
    by simp
next
  fix content
  assume e: "Get (Header r) ''Content-Range'' = []"
    and lc: "loadContent (Body r) = (content, None)"
  have rd: "rangeDecision r (chunkObject lib rawObj content r) = Inr (Map.empty, True)"
    by (rule rangeDecision_empty[OF e])
  note c = uploadFileContent_commit[OF assms(1) lc rd]
  show "uploadFileContent lib s r =
          (\<lparr>status = StatusOK, header = finalizeHeader r Map.empty,
            data = Some (chunkObject lib rawObj content r), errorMessage = []\<rparr>,
           CreateObject
             (s\<lparr>uploads := (uploads s)(index_map (Vars r) ''uploadId'' := None)\<rparr>)
             (chunkObject lib rawObj content r))"
    by (rule c)
  show "uploads (snd (uploadFileContent lib s r)) (index_map (Vars r) ''uploadId'') = None"
    by (simp add: c CreateObject_uploads)
  show "chunkObject lib rawObj content r
          \<in> set (bucket_objects (snd (uploadFileContent lib s r)) (BucketName rawObj))"
    using CreateObject_mem[of "chunkObject lib rawObj content r"
        "s\<lparr>uploads := (uploads s)(index_map (Vars r) ''uploadId'' := None)\<rparr>"]
    by (simp add: c chunkObject_fields)
qed

theorem bad_range_keeps_session_witness:
  "uploads sample_session (index_map (Vars (sample_chunk ''bytes 0-9'' [1, 2])) ''uploadId'') =
     Some (sample_object ''bkt'' ''obj'' [7]) \<and>
   isl (parseContentRange (Get (Header (sample_chunk ''bytes 0-9'' [1, 2])) ''Content-Range'')) \<and>
   uploadFileContent sample_lib sample_session (sample_chunk ''bytes 0-9'' [1, 2]) =
     (zero_jsonResponse\<lparr>errorMessage := ''invalid Content-Range: bytes 0-9'',
                         status := StatusBadRequest\<rparr>,
      sample_session) \<and>
   uploads sample_session (index_map (Vars (sample_chunk [] [1, 2])) ''uploadId'') =
     Some (sample_object ''bkt'' ''obj'' [7]) \<and>
   isl (parseContentRange (Get (Header (sample_chunk [] [1, 2])) ''Content-Range'')) \<and>
   status (fst (uploadFileContent sample_lib sample_session (sample_chunk [] [1, 2]))) = 200 \<and>
   uploads (snd (uploadFileContent sample_lib sample_session (sample_chunk [] [1, 2])))
     sample_uploadID = None"
proof -
  let ?r = "sample_chunk ''bytes 0-9'' [1, 2]"
  let ?q = "sample_chunk [] [1, 2]"
  have a: "uploads sample_session (index_map (Vars (sample_chunk cr c)) ''uploadId'') =
     Some (sample_object ''bkt'' ''obj'' [7])" for cr c
    by (simp add: request_eval index_map_def)
  have u: "index_map (Vars (sample_chunk cr c)) ''uploadId'' = sample_uploadID" for cr c
    by (simp add: sample_chunk_def sample_request_def index_map_def)
  have g: "Get (Header (sample_chunk cr c)) ''Content-Range'' = cr" for cr c
    by (simp add: sample_chunk_def sample_request_def Get_def)
  have b: "isl (parseContentRange (Get (Header ?r) ''Content-Range''))"
    by (simp add: g parse_eval)
  have b': "isl (parseContentRange (Get (Header ?q) ''Content-Range''))"
    by (simp add: g parseContentRange_empty)
  have d: "loadContent (Body (sample_chunk cr c)) = (c, None)" for cr c
    by (simp add: sample_chunk_def sample_request_def sample_body_def loadContent_def)
  note t1 = bad_range_keeps_session[OF a b, of sample_lib]
  note t2 = bad_range_keeps_session[OF a b', of sample_lib]
  from t1 have "snd (uploadFileContent sample_lib sample_session ?r) = sample_session"
    and "fst (uploadFileContent sample_lib sample_session ?r) =
          zero_jsonResponse\<lparr>errorMessage := ''invalid Content-Range: bytes 0-9'',
                              status := StatusBadRequest\<rparr>"
    by (simp_all add: g d)
  then have r1: "uploadFileContent sample_lib sample_session ?r =
     (zero_jsonResponse\<lparr>errorMessage := ''invalid Content-Range: bytes 0-9'',
                         status := StatusBadRequest\<rparr>,
      sample_session)"
    by (simp add: prod_eq_iff)
  note c = t2[THEN conjunct2, THEN conjunct2, THEN mp, OF g, THEN spec, THEN mp, OF d]
  from c[THEN conjunct1]
  have r2: "status (fst (uploadFileContent sample_lib sample_session ?q)) = 200"
    by (simp add: StatusOK_def)
  from c[THEN conjunct2, THEN conjunct1]
  have r3': "uploads (snd (uploadFileContent sample_lib sample_session ?q))
     sample_uploadID = None"
    by (simp only: u)
  show ?thesis
    by (intro conjI a b b' r1 r2 r3')
qed

text \<open>
  Two chunks on the sample session. The first has a Content-Range header that is present
  and empty, which does not parse: the response is 200 and the session is gone. The
  second has a Content-Range that does not parse and a body that cannot be read: the
  response carries the read error and no status, not BadRequest.
\<close>

theorem bad_range_counterexample:
  "uploads sample_session sample_uploadID = Some (sample_object ''bkt'' ''obj'' [7]) \<and>
   Header (sample_chunk [] [1, 2]) ''Content-Range'' = Some [[]] \<and>
   parseContentRange [] = Inl ''invalid Content-Range: '' \<and>
   status (fst (uploadFileContent sample_lib sample_session (sample_chunk [] [1, 2]))) = 200 \<and>
   uploads (snd (uploadFileContent sample_lib sample_session (sample_chunk [] [1, 2])))
     sample_uploadID = None \<and>
   uploadFileContent sample_lib sample_session
     (sample_chunk ''bytes 0-9'' []
        \<lparr>Body := \<lparr>ReadAll = ([], Some (Err ''unexpected EOF'')),
                  Decode = (zero_multipartMetadata, Some (Err ''unexpected EOF''))\<rparr>\<rparr>) =
     (\<lparr>status = 0, header = Map.empty, data = None, errorMessage = ''unexpected EOF''\<rparr>,
      sample_session)"
  by (simp add: handler_eval request_eval parse_eval CreateObject_uploads)

text \<open>
  Claim C7, as the code has it. For a chunk request on an existing session whose body was
  read and whose Content-Range header is absent or parsed: when the chunk does not
  commit, the session is overwritten with the new partial object and the status is 308,
  or, when the request has the header \<open>X-Guploader-No-308\<close>, 200 with
  \<open>X-Http-Status-Code-Override\<close> set to \<open>308\<close>; and, committed or not, the response has
  \<open>X-Goog-Upload-Status: final\<close> when the request's \<open>X-Goog-Upload-Command\<close> equals
  \<open>upload, finalize\<close>, and has no such header for any other value.
\<close>

theorem chunk_response:
  assumes "uploads s (index_map (Vars r) ''uploadId'') = Some rawObj"
    and "loadContent (Body r) = (content, None)"
    and "rangeDecision r (chunkObject lib rawObj content r) = Inr (h, commit)"
  shows "(\<not> commit \<longrightarrow>
            snd (uploadFileContent lib s r) =
              s\<lparr>uploads := (uploads s)(index_map (Vars r) ''uploadId'' \<mapsto>
                    chunkObject lib rawObj content r)\<rparr> \<and>
            data (fst (uploadFileContent lib s r)) = Some (chunkObject lib rawObj content r) \<and>
            (Header r ''X-Guploader-No-308'' = None \<longrightarrow>
               status (fst (uploadFileContent lib s r)) = 308 \<and>
               header (fst (uploadFileContent lib s r)) ''X-Http-Status-Code-Override'' = None) \<and>
            (Header r ''X-Guploader-No-308'' \<noteq> None \<longrightarrow>
               status (fst (uploadFileContent lib s r)) = 200 \<and>
               Get (header (fst (uploadFileContent lib s r))) ''X-Http-Status-Code-Override'' =
                 ''308'')) \<and>
         (Get (Header r) ''X-Goog-Upload-Command'' = ''upload, finalize'' \<longrightarrow>
            Get (header (fst (uploadFileContent lib s r))) ''X-Goog-Upload-Status'' = ''final'') \<and>
         (Get (Header r) ''X-Goog-Upload-Command'' \<noteq> ''upload, finalize'' \<longrightarrow>
            header (fst (uploadFileContent lib s r)) ''X-Goog-Upload-Status'' = None)"
proof -
  have h: "h ''X-Goog-Upload-Status'' = None" "h ''X-Http-Status-Code-Override'' = None"
    using rangeDecision_header[OF assms(3), of "''X-Goog-Upload-Status''"]
      rangeDecision_header[OF assms(3), of "''X-Http-Status-Code-Override''"]
    by simp_all
  show ?thesis
  proof (cases commit)
    case True
    with assms(3) have "rangeDecision r (chunkObject lib rawObj content r) = Inr (h, True)"
      by simp
    from uploadFileContent_commit[OF assms(1,2) this] True h show ?thesis
      by (simp add: finalizeHeader_def Get_def Set_def)
  next
    case False
    with assms(3) have "rangeDecision r (chunkObject lib rawObj content r) = Inr (h, False)"
      by simp
    from uploadFileContent_continue[OF assms(1,2) this] False h show ?thesis
      by (simp add: finalizeHeader_def Get_def Set_def StatusOK_def StatusPermanentRedirect_def)
  qed
qed

theorem chunk_response_witness:
  "uploads sample_session
     (index_map (Vars (sample_chunk ''bytes 0-1/10'' [1, 2])) ''uploadId'') =
     Some (sample_object ''bkt'' ''obj'' [7]) \<and>
   loadContent (Body (sample_chunk ''bytes 0-1/10'' [1, 2])) = ([1, 2], None) \<and>
   rangeDecision (sample_chunk ''bytes 0-1/10'' [1, 2])
     (chunkObject sample_lib (sample_object ''bkt'' ''obj'' [7]) [1, 2]
        (sample_chunk ''bytes 0-1/10'' [1, 2])) =
     Inr ([''Range'' \<mapsto> [''bytes=0-1'']], False) \<and>
   status (fst (uploadFileContent sample_lib sample_session
                  (sample_chunk ''bytes 0-1/10'' [1, 2]))) = 308 \<and>
   uploads (snd (uploadFileContent sample_lib sample_session
                  (sample_chunk ''bytes 0-1/10'' [1, 2]))) sample_uploadID =
     Some (chunkObject sample_lib (sample_object ''bkt'' ''obj'' [7]) [1, 2]
        (sample_chunk ''bytes 0-1/10'' [1, 2]))"
proof -
  let ?r = "sample_chunk ''bytes 0-1/10'' [1, 2]"
  let ?obj = "chunkObject sample_lib (sample_object ''bkt'' ''obj'' [7]) [1, 2] ?r"
  have a: "uploads sample_session (index_map (Vars ?r) ''uploadId'') =
     Some (sample_object ''bkt'' ''obj'' [7])"
    by (simp add: request_eval index_map_def)
  have b: "loadContent (Body ?r) = ([1, 2], None)"
    by (simp add: request_eval loadContent_def)
  have c: "rangeDecision ?r ?obj = Inr ([''Range'' \<mapsto> [''bytes=0-1'']], False)"
    by (simp add: rangeDecision_def request_eval Get_def Set_def parse_eval wrap_int_def
          Sprintf_d_def nat_dec.simps digit_chars_def)
  have n: "Header ?r ''X-Guploader-No-308'' = None"
    by (simp add: request_eval)
  have u: "index_map (Vars ?r) ''uploadId'' = sample_uploadID"
    by (simp add: request_eval index_map_def)
  from chunk_response[OF a b c] n u
  have "status (fst (uploadFileContent sample_lib sample_session ?r)) = 308 \<and>
        uploads (snd (uploadFileContent sample_lib sample_session ?r)) sample_uploadID = Some ?obj"
    by simp
  with a b c show ?thesis by (intro conjI) simp_all
qed

text \<open>
  The command \<open>start, upload, finalize\<close> contains \<open>upload, finalize\<close>, and the response
  has the Range header only.
\<close>

theorem chunk_response_counterexample:
  "Contains ''start, upload, finalize'' ''upload, finalize'' \<and>
   header (fst (uploadFileContent sample_lib sample_session
     (sample_chunk ''bytes 0-1/10'' [1, 2]
        \<lparr>Header := [''Content-Range'' \<mapsto> [''bytes 0-1/10''],
                     ''X-Goog-Upload-Command'' \<mapsto> [''start, upload, finalize'']]\<rparr>)))
     = [''Range'' \<mapsto> [''bytes=0-1'']] \<and>
   [''Range'' \<mapsto> [''bytes=0-1'']] ''X-Goog-Upload-Status'' = None"
  by (simp add: handler_eval request_eval parse_eval wrap_int_def Sprintf_d_def nat_dec.simps
        digit_chars_def Contains_def HasPrefix_def)

subsection \<open>Resumable uploads\<close>

lemma resumableUpload_ignores:
  "resumableUpload lib s bucketName
     (r\<lparr>Body := (Body r)\<lparr>Decode := (m\<lparr>mm_ContentType := ct, mm_ContentEncoding := ce\<rparr>, e)\<rparr>\<rparr>) rnd =
   resumableUpload lib s bucketName (r\<lparr>Body := (Body r)\<lparr>Decode := (m, e)\<rparr>\<rparr>) rnd"
  by (cases e; cases "generateUploadID rnd")
     (simp_all add: resumableUpload_def loadMetadata_def Let_def)

lemma committed_object:
  assumes "uploads s (index_map (Vars q) ''uploadId'') \<noteq> None"
    and "uploads (snd (uploadFileContent lib s q)) (index_map (Vars q) ''uploadId'') = None"
  shows "\<exists>ob. data (fst (uploadFileContent lib s q)) = Some ob \<and>
              ContentType ob = Get (Header q) ''Content-Type'' \<and>
              ob \<in> set (bucket_objects (snd (uploadFileContent lib s q)) (BucketName ob))"
proof -
  from assms(1) obtain rawObj where raw: "uploads s (index_map (Vars q) ''uploadId'') = Some rawObj"
    by blast
  obtain content e where lc: "loadContent (Body q) = (content, e)"
    by (cases "loadContent (Body q)")
  show ?thesis
  proof (cases e)
    case (Some err)
    from uploadFileContent_read_error[OF raw lc[unfolded Some], of lib] assms raw
    show ?thesis by simp
  next
    case None
    note lc = lc[unfolded None]
    let ?obj = "chunkObject lib rawObj content q"
    show ?thesis
    proof (cases "rangeDecision q ?obj")
      case (Inl msg)
      from uploadFileContent_bad_range[OF raw lc Inl] assms raw show ?thesis by simp
    next
      case (Inr hc)
      obtain h c where hc: "hc = (h, c)" by (cases hc)
      show ?thesis
      proof (cases c)
        case False
        with Inr hc have "rangeDecision q ?obj = Inr (h, False)" by simp
        from uploadFileContent_continue[OF raw lc this] assms(2)
        show ?thesis by simp
      next
        case True
        with Inr hc have "rangeDecision q ?obj = Inr (h, True)" by simp
        from uploadFileContent_commit[OF raw lc this]
          CreateObject_mem[of ?obj "s\<lparr>uploads := (uploads s)(index_map (Vars q) ''uploadId'' := None)\<rparr>"]
        show ?thesis
          by (simp add: chunkObject_fields contentTypeHeader_def)
      qed
    qed
  qed
qed

lemma rangeDecision_commits:
  assumes "Get (Header r) ''Content-Range'' = [] \<or>
     (\<exists>p. parseContentRange (Get (Header r) ''Content-Range'') = Inr p \<and>
          (KnownRange p \<longrightarrow> KnownTotal p \<and> Total p \<le> wrap_int (End p + 1)))"
  shows "\<exists>h. rangeDecision r obj = Inr (h, True)"
proof (cases "Get (Header r) ''Content-Range'' = []")
  case True
  then show ?thesis by (simp add: rangeDecision_def)
next
  case False
  with assms obtain p where p: "parseContentRange (Get (Header r) ''Content-Range'') = Inr p"
    "KnownRange p \<longrightarrow> KnownTotal p \<and> Total p \<le> wrap_int (End p + 1)" by blast
  show ?thesis
  proof (cases "KnownRange p")
    case True
    with p False show ?thesis by (simp add: rangeDecision_def)
  next
    case kr: False
    with p False show ?thesis by (simp add: rangeDecision_def)
  qed
qed

lemma commit_on_inputs:
  assumes "uploads s (index_map (Vars q) ''uploadId'') = Some rawObj"
    and "loadContent (Body q) = (content, None)"
    and "Get (Header q) ''Content-Range'' = [] \<or>
     (\<exists>p. parseContentRange (Get (Header q) ''Content-Range'') = Inr p \<and>
          (KnownRange p \<longrightarrow> KnownTotal p \<and> Total p \<le> wrap_int (End p + 1)))"
  shows "status (fst (uploadFileContent lib s q)) = StatusOK \<and>
         data (fst (uploadFileContent lib s q)) = Some (chunkObject lib rawObj content q) \<and>
         snd (uploadFileContent lib s q) =
           CreateObject (s\<lparr>uploads := (uploads s)(index_map (Vars q) ''uploadId'' := None)\<rparr>)
             (chunkObject lib rawObj content q) \<and>
         ContentType (chunkObject lib rawObj content q) = Get (Header q) ''Content-Type'' \<and>
         chunkObject lib rawObj content q
           \<in> set (bucket_objects (snd (uploadFileContent lib s q)) (BucketName rawObj))"
proof -
  from rangeDecision_commits[OF assms(3)] obtain h where
    "rangeDecision q (chunkObject lib rawObj content q) = Inr (h, True)" by blast
  note c = uploadFileContent_commit[OF assms(1,2) this]
  have "chunkObject lib rawObj content q
           \<in> set (bucket_objects (snd (uploadFileContent lib s q)) (BucketName rawObj))"
    using CreateObject_mem[of "chunkObject lib rawObj content q"
        "s\<lparr>uploads := (uploads s)(index_map (Vars q) ''uploadId'' := None)\<rparr>"]
    by (simp add: c chunkObject_fields)
  then show ?thesis
    by (simp add: c chunkObject_fields contentTypeHeader_def)
qed

lemma initiation_and_removed_session:
  "(snd (loadMetadata (Body r)) = None \<longrightarrow>
      (\<exists>obj. snd (resumableUpload lib s bucketName r (Inr raw)) =
                s\<lparr>uploads := (uploads s)(Sprintf_x raw \<mapsto> obj)\<rparr> \<and>
              data (fst (resumableUpload lib s bucketName r (Inr raw))) = Some obj \<and>
              ContentType obj = [] \<and>
              ContentEncoding obj = Get (Query r) ''contentEncoding'')) \<and>
   (snd (loadMetadata (Body r)) \<noteq> None \<longrightarrow>
      snd (resumableUpload lib s bucketName r (Inr raw)) = s) \<and>
   snd (resumableUpload lib s bucketName r (Inl err)) = s \<and>
   resumableUpload lib s bucketName
     (r\<lparr>Body := (Body r)\<lparr>Decode := (m\<lparr>mm_ContentType := ct, mm_ContentEncoding := ce\<rparr>, e)\<rparr>\<rparr>) rnd =
   resumableUpload lib s bucketName (r\<lparr>Body := (Body r)\<lparr>Decode := (m, e)\<rparr>\<rparr>) rnd \<and>
   (uploads s (index_map (Vars q) ''uploadId'') \<noteq> None \<and>
    uploads (snd (uploadFileContent lib s q)) (index_map (Vars q) ''uploadId'') = None \<longrightarrow>
      (\<exists>ob. data (fst (uploadFileContent lib s q)) = Some ob \<and>
            ContentType ob = Get (Header q) ''Content-Type'' \<and>
            ob \<in> set (bucket_objects (snd (uploadFileContent lib s q)) (BucketName ob))))"
proof (intro conjI impI)
  assume "snd (loadMetadata (Body r)) = None"
  then obtain metadata where md: "loadMetadata (Body r) = (metadata, None)"
    by (cases "loadMetadata (Body r)") auto
  show "\<exists>obj. snd (resumableUpload lib s bucketName r (Inr raw)) =
                s\<lparr>uploads := (uploads s)(Sprintf_x raw \<mapsto> obj)\<rparr> \<and>
              data (fst (resumableUpload lib s bucketName r (Inr raw))) = Some obj \<and>
              ContentType obj = [] \<and>
              ContentEncoding obj = Get (Query r) ''contentEncoding''"
  proof (intro exI[of _ "zero_Object
            \<lparr>BucketName := bucketName,
             Name := (if Get (Query r) ''name'' = [] then mm_Name metadata
                      else Get (Query r) ''name''),
             ContentEncoding := Get (Query r) ''contentEncoding'',
             ACL := getObjectACL (Get (Query r) ''predefinedAcl''),
             Metadata := mm_Metadata metadata\<rparr>"] conjI)
  qed (simp_all add: resumableUpload_ok[OF md] zero_Object_def zero_jsonResponse_def)
next
  assume "snd (loadMetadata (Body r)) \<noteq> None"
  then obtain metadata e where "loadMetadata (Body r) = (metadata, Some e)"
    by (cases "loadMetadata (Body r)") auto
  then show "snd (resumableUpload lib s bucketName r (Inr raw)) = s"
    by (simp add: resumableUpload_def Let_def)
next
  show "snd (resumableUpload lib s bucketName r (Inl err)) = s"
    by (cases "loadMetadata (Body r)")
       (auto simp: resumableUpload_def generateUploadID_def Let_def split: option.splits)
next
  show "resumableUpload lib s bucketName
     (r\<lparr>Body := (Body r)\<lparr>Decode := (m\<lparr>mm_ContentType := ct, mm_ContentEncoding := ce\<rparr>, e)\<rparr>\<rparr>) rnd =
   resumableUpload lib s bucketName (r\<lparr>Body := (Body r)\<lparr>Decode := (m, e)\<rparr>\<rparr>) rnd"
    by (rule resumableUpload_ignores)
next
  assume "uploads s (index_map (Vars q) ''uploadId'') \<noteq> None \<and>
    uploads (snd (uploadFileContent lib s q)) (index_map (Vars q) ''uploadId'') = None"
  then show "\<exists>ob. data (fst (uploadFileContent lib s q)) = Some ob \<and>
            ContentType ob = Get (Header q) ''Content-Type'' \<and>
            ob \<in> set (bucket_objects (snd (uploadFileContent lib s q)) (BucketName ob))"
    using committed_object by blast
qed

text \<open>
  Claim C10. When the metadata is decoded and the upload id generated, initiation
  registers an object whose content type is empty and whose content encoding is the
  \<open>contentEncoding\<close> query parameter; otherwise it leaves the server as it was. The
  content type and content encoding of the decoded metadata do not influence the
  result at all. A chunk request that removes an existing session commits an object
  whose content type is the Content-Type header of that request. On the inputs: for an
  existing session, a body that is read, and a Content-Range that is empty or parses
  to an unknown range or to a known range with a known total of at most the end plus
  one, the handler answers 200, removes the session and stores the object of the session
  with the chunk appended, whose content type is the Content-Type header of this
  request, whatever the content type of the session's object was.
\<close>

theorem resumable_contentType:
  "((snd (loadMetadata (Body r)) = None \<longrightarrow>
      (\<exists>obj. snd (resumableUpload lib s bucketName r (Inr raw)) =
                s\<lparr>uploads := (uploads s)(Sprintf_x raw \<mapsto> obj)\<rparr> \<and>
              data (fst (resumableUpload lib s bucketName r (Inr raw))) = Some obj \<and>
              ContentType obj = [] \<and>
              ContentEncoding obj = Get (Query r) ''contentEncoding'')) \<and>
   (snd (loadMetadata (Body r)) \<noteq> None \<longrightarrow>
      snd (resumableUpload lib s bucketName r (Inr raw)) = s) \<and>
   snd (resumableUpload lib s bucketName r (Inl err)) = s \<and>
   resumableUpload lib s bucketName
     (r\<lparr>Body := (Body r)\<lparr>Decode := (m\<lparr>mm_ContentType := ct, mm_ContentEncoding := ce\<rparr>, e)\<rparr>\<rparr>) rnd =
   resumableUpload lib s bucketName (r\<lparr>Body := (Body r)\<lparr>Decode := (m, e)\<rparr>\<rparr>) rnd \<and>
   (uploads s (index_map (Vars q) ''uploadId'') \<noteq> None \<and>
    uploads (snd (uploadFileContent lib s q)) (index_map (Vars q) ''uploadId'') = None \<longrightarrow>
      (\<exists>ob. data (fst (uploadFileContent lib s q)) = Some ob \<and>
            ContentType ob = Get (Header q) ''Content-Type'' \<and>
            ob \<in> set (bucket_objects (snd (uploadFileContent lib s q)) (BucketName ob))))) \<and>
   (uploads s (index_map (Vars q) ''uploadId'') = Some rawObj \<and>
    loadContent (Body q) = (content, None) \<and>
    (Get (Header q) ''Content-Range'' = [] \<or>
     (\<exists>p. parseContentRange (Get (Header q) ''Content-Range'') = Inr p \<and>
          (KnownRange p \<longrightarrow> KnownTotal p \<and> Total p \<le> wrap_int (End p + 1)))) \<longrightarrow>
      status (fst (uploadFileContent lib s q)) = StatusOK \<and>
      data (fst (uploadFileContent lib s q)) = Some (chunkObject lib rawObj content q) \<and>
      snd (uploadFileContent lib s q) =
        CreateObject (s\<lparr>uploads := (uploads s)(index_map (Vars q) ''uploadId'' := None)\<rparr>)
          (chunkObject lib rawObj content q) \<and>
      ContentType (chunkObject lib rawObj content q) = Get (Header q) ''Content-Type'' \<and>
      chunkObject lib rawObj content q
        \<in> set (bucket_objects (snd (uploadFileContent lib s q)) (BucketName rawObj)))"
  (is "?A \<and> ?B")
proof (rule conjI)
  show ?A by (rule initiation_and_removed_session)
  show ?B by (intro impI, elim conjE, rule commit_on_inputs, assumption+)
qed

text \<open>
  The sample upload: the metadata says \<open>image/png\<close>, the registered object has no
  content type, and the object committed by a chunk with the header
  \<open>Content-Type: text/plain\<close> has the content type \<open>text/plain\<close>.
\<close>

theorem resumable_contentType_witness:
  "snd (loadMetadata (Body sample_initiate)) = None \<and>
   mm_ContentType (fst (loadMetadata (Body sample_initiate))) = ''image/png'' \<and>
   (\<exists>obj. snd (resumableUpload sample_lib sample_store ''bkt'' sample_initiate
                   (Inr sample_raw)) =
            sample_store\<lparr>uploads := (uploads sample_store)(sample_uploadID \<mapsto> obj)\<rparr> \<and>
          ContentType obj = [] \<and>
          loadContent (Body (sample_chunk ''bytes 0-1/2'' [1, 2])) = ([1, 2], None) \<and>
          parseContentRange (Get (Header (sample_chunk ''bytes 0-1/2'' [1, 2])) ''Content-Range'') =
            Inr \<lparr>KnownRange = True, KnownTotal = True, Start = 0, End = 1, Total = 2\<rparr> \<and>
          data (fst (uploadFileContent sample_lib
                  (sample_store\<lparr>uploads := (uploads sample_store)(sample_uploadID \<mapsto> obj)\<rparr>)
                  (sample_chunk ''bytes 0-1/2'' [1, 2]))) =
            Some (chunkObject sample_lib obj [1, 2] (sample_chunk ''bytes 0-1/2'' [1, 2])) \<and>
          ContentType (chunkObject sample_lib obj [1, 2] (sample_chunk ''bytes 0-1/2'' [1, 2])) =
            ''text/plain'')"
proof -
  let ?q = "sample_chunk ''bytes 0-1/2'' [1, 2]"
  have md: "snd (loadMetadata (Body sample_initiate)) = None"
    "mm_ContentType (fst (loadMetadata (Body sample_initiate))) = ''image/png''"
    by (simp_all add: loadMetadata_def request_eval)
  note t = resumable_contentType[where r = sample_initiate and lib = sample_lib
      and bucketName = "''bkt''" and raw = sample_raw and q = ?q and content = "[1, 2]"]
  from t[where s = sample_store, THEN conjunct1, THEN conjunct1, THEN mp, OF md(1)]
  obtain obj where
    s1: "snd (resumableUpload sample_lib sample_store ''bkt'' sample_initiate (Inr sample_raw)) =
       sample_store\<lparr>uploads := (uploads sample_store)(Sprintf_x sample_raw \<mapsto> obj)\<rparr>"
    and ct: "ContentType obj = []"
    by blast
  let ?s1 = "sample_store\<lparr>uploads := (uploads sample_store)(sample_uploadID \<mapsto> obj)\<rparr>"
  have u: "uploads ?s1 (index_map (Vars ?q) ''uploadId'') = Some obj"
    by (simp add: sample_chunk_def sample_request_def index_map_def)
  have lc: "loadContent (Body ?q) = ([1, 2], None)"
    by (simp add: sample_chunk_def sample_request_def sample_body_def loadContent_def)
  have g: "Get (Header ?q) ''Content-Range'' = ''bytes 0-1/2''"
    "Get (Header ?q) ''Content-Type'' = ''text/plain''"
    by (simp_all add: sample_chunk_def sample_request_def Get_def)
  have p: "parseContentRange (Get (Header ?q) ''Content-Range'') =
      Inr \<lparr>KnownRange = True, KnownTotal = True, Start = 0, End = 1, Total = 2\<rparr>"
    by (simp add: g parse_eval)
  have w: "Total \<lparr>KnownRange = True, KnownTotal = True, Start = 0, End = 1, Total = 2\<rparr>
      \<le> wrap_int (End \<lparr>KnownRange = True, KnownTotal = True, Start = 0, End = 1, Total = 2\<rparr> + 1)"
    by (simp add: wrap_int_def)
  have c: "Get (Header ?q) ''Content-Range'' = [] \<or>
     (\<exists>p. parseContentRange (Get (Header ?q) ''Content-Range'') = Inr p \<and>
          (KnownRange p \<longrightarrow> KnownTotal p \<and> Total p \<le> wrap_int (End p + 1)))"
    using p w by (intro disjI2 exI[of _ "\<lparr>KnownRange = True, KnownTotal = True, Start = 0, End = 1, Total = 2\<rparr>"]) simp
  note k = t[where s = ?s1 and rawObj = obj, THEN conjunct2, THEN mp, OF conjI[OF u conjI[OF lc c]]]
  from k have d: "data (fst (uploadFileContent sample_lib ?s1 ?q)) =
      Some (chunkObject sample_lib obj [1, 2] ?q)"
    by (rule conjunct2[THEN conjunct1])
  from k have "ContentType (chunkObject sample_lib obj [1, 2] ?q) = Get (Header ?q) ''Content-Type''"
    by (rule conjunct2[THEN conjunct2, THEN conjunct2, THEN conjunct1])
  then have ct2: "ContentType (chunkObject sample_lib obj [1, 2] ?q) = ''text/plain''"
    by (simp only: g)
  have s1': "snd (resumableUpload sample_lib sample_store ''bkt'' sample_initiate (Inr sample_raw)) = ?s1"
    using s1 by (simp only: sample_uploadID_hex)
  show ?thesis
    by (intro conjI md exI[of _ obj] s1' ct lc p d ct2)
qed

lemma three_chunks_scenario:
  assumes init: "resumableUpload lib s0 bucketName r0 (Inr raw) = (resp0, s1)"
    and meta: "snd (loadMetadata (Body r0)) = None"
    and ids: "Vars r1 ''uploadId'' = Some (Sprintf_x raw)"
             "Vars r2 ''uploadId'' = Some (Sprintf_x raw)"
             "Vars r3 ''uploadId'' = Some (Sprintf_x raw)"
    and bodies: "loadContent (Body r1) = (c1, None)"
                "loadContent (Body r2) = (c2, None)"
                "loadContent (Body r3) = (c3, None)"
    and lens: "length c1 = 1000" "length c2 = 1000" "length c3 = 600"
    and ranges: "Header r1 ''Content-Range'' = Some [''bytes 0-999/2600'']"
                "Header r2 ''Content-Range'' = Some [''bytes 1000-1999/2600'']"
                "Header r3 ''Content-Range'' = Some [''bytes 2000-2599/2600'']"
  shows "let (resp1, s2) = uploadFileContent lib s1 r1;
             (resp2, s3) = uploadFileContent lib s2 r2;
             (resp3, s4) = uploadFileContent lib s3 r3
         in uploads s2 (Sprintf_x raw) \<noteq> None \<and> buckets s2 = buckets s0 \<and>
            uploads s3 (Sprintf_x raw) \<noteq> None \<and> buckets s3 = buckets s0 \<and>
            uploads s4 (Sprintf_x raw) = None \<and>
            status resp3 = StatusOK \<and>
            (\<exists>ob. data resp3 = Some ob \<and>
                  ob \<in> set (bucket_objects s4 bucketName) \<and>
                  BucketName ob = bucketName \<and>
                  Content ob = c1 @ c2 @ c3 \<and>
                  length (Content ob) = 2600 \<and>
                  Crc32c ob = encodedCrc32cChecksum lib (c1 @ c2 @ c3) \<and>
                  Md5Hash ob = encodedMd5Hash lib (c1 @ c2 @ c3) \<and>
                  (owned s0 \<and> unique_identity s0 \<longrightarrow>
                     GetObject s4 bucketName (Name ob) = Inr ob))"
proof -
  let ?uid = "Sprintf_x raw"
  from meta obtain metadata where md: "loadMetadata (Body r0) = (metadata, None)"
    by (cases "loadMetadata (Body r0)") auto
  define obj0 where "obj0 = zero_Object
            \<lparr>BucketName := bucketName,
             Name := (if Get (Query r0) ''name'' = [] then mm_Name metadata
                      else Get (Query r0) ''name''),
             ContentEncoding := Get (Query r0) ''contentEncoding'',
             ACL := getObjectACL (Get (Query r0) ''predefinedAcl''),
             Metadata := mm_Metadata metadata\<rparr>"
  have obj0: "Content obj0 = []" "BucketName obj0 = bucketName"
    by (simp_all add: obj0_def zero_Object_def)
  have s1: "s1 = s0\<lparr>uploads := (uploads s0)(?uid \<mapsto> obj0)\<rparr>"
    using init resumableUpload_ok[OF md, of lib s0 bucketName raw] by (simp add: obj0_def)
  define obj1 where "obj1 = chunkObject lib obj0 c1 r1"
  define obj2 where "obj2 = chunkObject lib obj1 c2 r2"
  define obj3 where "obj3 = chunkObject lib obj2 c3 r3"
  have uid: "index_map (Vars r1) ''uploadId'' = ?uid" "index_map (Vars r2) ''uploadId'' = ?uid"
    "index_map (Vars r3) ''uploadId'' = ?uid"
    using ids by (simp_all add: index_map_def)
  \<comment> \<open>first chunk\<close>
  from rangeDecision_chunks(1)[OF ranges(1), of obj1]
  obtain h1 where rd1: "rangeDecision r1 obj1 = Inr (h1, False)"
    by (auto elim: rangeDecision_Inr)
  have u1: "uploads s1 (index_map (Vars r1) ''uploadId'') = Some obj0"
    by (simp add: s1 uid)
  define s2 where "s2 = s1\<lparr>uploads := (uploads s1)(?uid \<mapsto> obj1)\<rparr>"
  obtain resp1 where c1: "uploadFileContent lib s1 r1 = (resp1, s2)"
    using uploadFileContent_continue[OF u1 bodies(1) rd1[unfolded obj1_def]]
    by (simp add: uid obj1_def s2_def)
  \<comment> \<open>second chunk\<close>
  from rangeDecision_chunks(2)[OF ranges(2), of obj2]
  obtain h2 where rd2: "rangeDecision r2 obj2 = Inr (h2, False)"
    by (auto elim: rangeDecision_Inr)
  have u2: "uploads s2 (index_map (Vars r2) ''uploadId'') = Some obj1"
    by (simp add: s2_def uid)
  define s3 where "s3 = s2\<lparr>uploads := (uploads s2)(?uid \<mapsto> obj2)\<rparr>"
  obtain resp2 where c2: "uploadFileContent lib s2 r2 = (resp2, s3)"
    using uploadFileContent_continue[OF u2 bodies(2) rd2[unfolded obj2_def]]
    by (simp add: uid obj2_def s3_def)
  \<comment> \<open>third chunk\<close>
  from rangeDecision_chunks(3)[OF ranges(3), of obj3]
  obtain h3 where rd3: "rangeDecision r3 obj3 = Inr (h3, True)"
    by (auto elim: rangeDecision_Inr)
  have u3: "uploads s3 (index_map (Vars r3) ''uploadId'') = Some obj2"
    by (simp add: s3_def uid)
  define s4 where "s4 = CreateObject (s3\<lparr>uploads := (uploads s3)(?uid := None)\<rparr>) obj3"
  have c3: "uploadFileContent lib s3 r3 =
      (\<lparr>status = StatusOK, header = finalizeHeader r3 h3, data = Some obj3, errorMessage = []\<rparr>, s4)"
    using uploadFileContent_commit[OF u3 bodies(3) rd3[unfolded obj3_def]]
    by (simp add: uid obj3_def s4_def)
  have content: "Content obj3 = c1 @ c2 @ c3"
    by (simp add: obj3_def obj2_def obj1_def chunkObject_fields obj0)
  have crc: "Crc32c obj3 = encodedCrc32cChecksum lib (c1 @ c2 @ c3)"
    and md5: "Md5Hash obj3 = encodedMd5Hash lib (c1 @ c2 @ c3)"
    by (simp_all add: obj3_def obj2_def obj1_def chunkObject_fields obj0)
  have bn: "BucketName obj3 = bucketName"
    by (simp add: obj3_def obj2_def obj1_def chunkObject_fields obj0)
  have mem: "obj3 \<in> set (bucket_objects s4 bucketName)"
    using CreateObject_mem[of obj3 "s3\<lparr>uploads := (uploads s3)(?uid := None)\<rparr>"]
    by (simp add: s4_def bn)
  have up4: "uploads s4 ?uid = None"
    by (simp add: s4_def CreateObject_uploads)
  have b2: "buckets s2 = buckets s0" and b3: "buckets s3 = buckets s0"
    by (simp_all add: s3_def s2_def s1)
  have get: "GetObject s4 bucketName (Name obj3) = Inr obj3" if "owned s0" "unique_identity s0"
  proof -
    let ?t = "s3\<lparr>uploads := (uploads s3)(?uid := None)\<rparr>"
    have "bucket_objects ?t = bucket_objects s0"
      by (rule ext) (simp add: bucket_objects_def b3)
    with that have "owned ?t" "unique_identity ?t"
      by (simp_all add: owned_def unique_identity_def)
    from CreateObject_step(1,2)[OF this, of obj3] mem show ?thesis
      unfolding s4_def by (intro GetObject_stored) (simp_all add: s4_def)
  qed
  have up2: "uploads s2 ?uid \<noteq> None" and up3: "uploads s3 ?uid \<noteq> None"
    by (simp_all add: s2_def s3_def)
  show ?thesis
    using content crc md5 bn mem up4 up2 up3 b2 b3 get lens
    by (simp add: c1 c2 c3)
qed

text \<open>
  Claim C2. After initiation, the chunks with the ranges \<open>bytes 0-999/2600\<close>,
  \<open>bytes 1000-1999/2600\<close> and \<open>bytes 2000-2599/2600\<close> and bodies of 1000, 1000 and 600
  bytes: the first two keep the session and store nothing, the third removes the session
  and stores the object, whose content is the three bodies in order, 2600 bytes, with
  both digests those of that content. The rule behind it: for a parsed header with a
  known range, the chunk commits exactly when the total is known and is at most the end
  plus one, the sum being that of Go's \<open>int\<close>, which is the exact sum unless the end is
  the largest \<open>int\<close>.
\<close>

theorem resumable_three_chunks:
  assumes init: "resumableUpload lib s0 bucketName r0 (Inr raw) = (resp0, s1)"
    and meta: "snd (loadMetadata (Body r0)) = None"
    and ids: "Vars r1 ''uploadId'' = Some (Sprintf_x raw)"
             "Vars r2 ''uploadId'' = Some (Sprintf_x raw)"
             "Vars r3 ''uploadId'' = Some (Sprintf_x raw)"
    and bodies: "loadContent (Body r1) = (c1, None)"
                "loadContent (Body r2) = (c2, None)"
                "loadContent (Body r3) = (c3, None)"
    and lens: "length c1 = 1000" "length c2 = 1000" "length c3 = 600"
    and ranges: "Header r1 ''Content-Range'' = Some [''bytes 0-999/2600'']"
                "Header r2 ''Content-Range'' = Some [''bytes 1000-1999/2600'']"
                "Header r3 ''Content-Range'' = Some [''bytes 2000-2599/2600'']"
  shows "(let (resp1, s2) = uploadFileContent lib s1 r1;
              (resp2, s3) = uploadFileContent lib s2 r2;
              (resp3, s4) = uploadFileContent lib s3 r3
          in uploads s2 (Sprintf_x raw) \<noteq> None \<and> buckets s2 = buckets s0 \<and>
             uploads s3 (Sprintf_x raw) \<noteq> None \<and> buckets s3 = buckets s0 \<and>
             uploads s4 (Sprintf_x raw) = None \<and>
             status resp3 = StatusOK \<and>
             (\<exists>ob. data resp3 = Some ob \<and>
                   ob \<in> set (bucket_objects s4 bucketName) \<and>
                   BucketName ob = bucketName \<and>
                   Content ob = c1 @ c2 @ c3 \<and>
                   length (Content ob) = 2600 \<and>
                   Crc32c ob =
                     base64_EncodeToString lib (crc32_Castagnoli lib (c1 @ c2 @ c3)) \<and>
                   Md5Hash ob = base64_EncodeToString lib (md5_Sum lib (c1 @ c2 @ c3)) \<and>
                   (owned s0 \<and> unique_identity s0 \<longrightarrow>
                      GetObject s4 bucketName (Name ob) = Inr ob))) \<and>
         (\<forall>r obj p.
             Get (Header r) ''Content-Range'' \<noteq> [] \<and>
             parseContentRange (Get (Header r) ''Content-Range'') = Inr p \<and> KnownRange p \<longrightarrow>
             (\<exists>h. rangeDecision r obj =
                    Inr (h, KnownTotal p \<and> Total p \<le> wrap_int (End p + 1))) \<and>
             (End p < int_max \<longrightarrow> wrap_int (End p + 1) = End p + 1))"
  using three_chunks_scenario[OF assms, unfolded encodedCrc32cChecksum_def encodedChecksum_def
      crc32cChecksum_def encodedMd5Hash_def encodedHash_def md5Hash_def] commit_rule
  by blast

theorem resumable_three_chunks_witness:
  "resumableUpload sample_lib sample_store ''bkt'' sample_initiate (Inr sample_raw) =
     (fst (resumableUpload sample_lib sample_store ''bkt'' sample_initiate (Inr sample_raw)),
      snd (resumableUpload sample_lib sample_store ''bkt'' sample_initiate (Inr sample_raw))) \<and>
   snd (loadMetadata (Body sample_initiate)) = None \<and>
   Vars (sample_chunk ''bytes 0-999/2600'' (replicate 1000 1)) ''uploadId'' =
     Some (Sprintf_x sample_raw) \<and>
   loadContent (Body (sample_chunk ''bytes 0-999/2600'' (replicate 1000 1))) =
     (replicate 1000 1, None) \<and>
   length (replicate 1000 (1::byte)) = 1000 \<and> length (replicate 600 (3::byte)) = 600 \<and>
   Header (sample_chunk ''bytes 0-999/2600'' (replicate 1000 1)) ''Content-Range'' =
     Some [''bytes 0-999/2600''] \<and>
   (let (resp1, s2) = uploadFileContent sample_lib
          (snd (resumableUpload sample_lib sample_store ''bkt'' sample_initiate (Inr sample_raw)))
          (sample_chunk ''bytes 0-999/2600'' (replicate 1000 1));
        (resp2, s3) = uploadFileContent sample_lib s2
          (sample_chunk ''bytes 1000-1999/2600'' (replicate 1000 2));
        (resp3, s4) = uploadFileContent sample_lib s3
          (sample_chunk ''bytes 2000-2599/2600'' (replicate 600 3))
    in uploads s2 (Sprintf_x sample_raw) \<noteq> None \<and> buckets s2 = buckets sample_store \<and>
       uploads s3 (Sprintf_x sample_raw) \<noteq> None \<and> buckets s3 = buckets sample_store \<and>
       uploads s4 (Sprintf_x sample_raw) = None \<and>
       status resp3 = StatusOK \<and>
       (\<exists>ob. data resp3 = Some ob \<and>
             ob \<in> set (bucket_objects s4 ''bkt'') \<and>
             BucketName ob = ''bkt'' \<and>
             Content ob = replicate 1000 1 @ replicate 1000 2 @ replicate 600 3 \<and>
             length (Content ob) = 2600 \<and>
             Crc32c ob = base64_EncodeToString sample_lib (crc32_Castagnoli sample_lib
               (replicate 1000 1 @ replicate 1000 2 @ replicate 600 3)) \<and>
             Md5Hash ob = base64_EncodeToString sample_lib (md5_Sum sample_lib
               (replicate 1000 1 @ replicate 1000 2 @ replicate 600 3)) \<and>
             (owned sample_store \<and> unique_identity sample_store \<longrightarrow>
                GetObject s4 ''bkt'' (Name ob) = Inr ob)))"
proof -
  have init: "resumableUpload sample_lib sample_store ''bkt'' sample_initiate (Inr sample_raw) =
     (fst (resumableUpload sample_lib sample_store ''bkt'' sample_initiate (Inr sample_raw)),
      snd (resumableUpload sample_lib sample_store ''bkt'' sample_initiate (Inr sample_raw)))"
    by simp
  have meta: "snd (loadMetadata (Body sample_initiate)) = None"
    by (simp add: loadMetadata_def request_eval)
  have ids: "Vars (sample_chunk cr c) ''uploadId'' = Some (Sprintf_x sample_raw)" for cr c
    by (simp add: sample_uploadID_hex sample_chunk_def sample_request_def)
  have bodies: "loadContent (Body (sample_chunk cr c)) = (c, None)" for cr c
    by (simp add: loadContent_def sample_chunk_def sample_request_def sample_body_def)
  have lens: "length (replicate 1000 (1::byte)) = 1000" "length (replicate 1000 (2::byte)) = 1000"
    "length (replicate 600 (3::byte)) = 600"
    by simp_all
  have ranges: "Header (sample_chunk cr c) ''Content-Range'' = Some [cr]" for cr c
    by (simp add: sample_chunk_def sample_request_def)
  note w = resumable_three_chunks[OF init meta ids ids ids bodies bodies bodies lens ranges ranges ranges,
      THEN conjunct1]
  show ?thesis
    by (intro conjI init meta ids bodies lens ranges w)
qed

subsection \<open>Multipart uploads\<close>

lemma multipart_loop_keeps_metadata:
  "fst (fst (multipart_loop parts end_err (Some m, content, contentType))) \<noteq> None"
  by (induction parts arbitrary: content contentType)
     (auto split: prod.splits option.splits)

lemma multipart_loop_metadata:
  "parts \<noteq> [] \<Longrightarrow> fst (fst (multipart_loop parts end_err (None, content, contentType))) \<noteq> None"
  using multipart_loop_keeps_metadata
  by (cases parts) (auto split: prod.splits option.splits)

text \<open>With at least one part the handler returns a response.\<close>

lemma multipartUpload_returns:
  assumes "MediaType r = Inr (mediatype, params)"
    and "NextParts r (index_map params ''boundary'') = (parts, end_err)"
    and "parts \<noteq> []"
  shows "\<exists>resp. fst (multipartUpload lib s bucketName r) = Return resp"
proof -
  obtain metadata content contentType err where
    l: "multipart_loop parts end_err (None, [], []) = ((metadata, content, contentType), err)"
    by (metis prod.exhaust)
  from multipart_loop_metadata[OF assms(3), of end_err "[]" "[]"] l
  obtain m where m: "metadata = Some m" by auto
  show ?thesis
    using assms(1,2) l m
    by (auto simp: multipartUpload_def createObject_def Let_def split: option.splits)
qed

lemma multipartUpload_bad_media:
  "MediaType r = Inl err \<Longrightarrow>
   multipartUpload lib s bucketName r =
     (Return (zero_jsonResponse\<lparr>status := StatusBadRequest,
                                 errorMessage := ''invalid Content-Type header''\<rparr>), s)"
  by (simp add: multipartUpload_def)

lemma multipartUpload_no_parts:
  assumes "MediaType r = Inr (mediatype, params)"
    and "NextParts r (index_map params ''boundary'') = ([], EOF)"
    and "Get (Query r) ''name'' = []"
  shows "multipartUpload lib s bucketName r = (Panic nil_dereference, s)"
  using assms by (simp add: multipartUpload_def)

lemma multipartUpload_no_parts_named:
  assumes "MediaType r = Inr (mediatype, params)"
    and "NextParts r (index_map params ''boundary'') = ([], EOF)"
    and "Get (Query r) ''name'' \<noteq> []"
    and "checkUploadPreconditions s r bucketName (Get (Query r) ''name'') = None"
  shows "multipartUpload lib s bucketName r = (Panic nil_dereference, s)"
  using assms by (simp add: multipartUpload_def)

text \<open>
  Claim C4 asks for a result value from every handler. A multipart request whose body
  has no part ends the loop with \<open>io.EOF\<close> and \<open>metadata\<close> still nil; without a \<open>name\<close>
  parameter the handler then reads \<open>metadata.Name\<close> and panics, and with one it panics at
  \<open>metadata.ContentEncoding\<close> once the preconditions pass. Here is the handler on the
  sample request.
\<close>

theorem multipartUpload_no_parts_panics:
  "multipartUpload sample_lib sample_store ''bkt'' sample_multipart_empty =
     (Panic ''runtime error: invalid memory address or nil pointer dereference'', sample_store)"
  by (simp add: multipartUpload_def request_eval index_map_def Get_def nil_dereference_def)

end
